theory Spec2Isabelle
  imports Main "HOL-Library.Word"
begin

unbundle bit_operations_syntax

section \<open>JavaScript values\<close>

text \<open>
  A JavaScript string is a sequence of UTF-16 code units. String literals of the source are
  written through \<open>js\<close>, which maps every character of an ASCII literal to its code unit.
\<close>

type_synonym jsstring = "16 word list"

definition js :: "string \<Rightarrow> jsstring" where
  "js s = map (\<lambda>c. of_char c) s"

text \<open>
  The values that cross the functions of this development. Numbers are the integral ones
  (on which the arithmetic of the source is exact) together with \<open>NaN\<close>; an object is the
  list of its entries in the order \<open>Object.entries\<close> yields them.
\<close>

datatype jsvalue =
    Undefined
  | Null
  | Bool bool
  | Number int
  | NaN
  | Str jsstring
  | Arr "jsvalue list"
  | Obj "(jsstring \<times> jsvalue) list"

text \<open>\<open>!!v\<close>: the falsy values are undefined, null, false, 0, NaN and the empty string.\<close>

fun truthy :: "jsvalue \<Rightarrow> bool" where
  "truthy Undefined = False"
| "truthy Null = False"
| "truthy (Bool b) = b"
| "truthy (Number n) = (n \<noteq> 0)"
| "truthy NaN = False"
| "truthy (Str s) = (s \<noteq> [])"
| "truthy (Arr xs) = True"
| "truthy (Obj kvs) = True"

text \<open>\<open>v ?? null\<close>\<close>

fun orNull :: "jsvalue \<Rightarrow> jsvalue" where
  "orNull Undefined = Null"
| "orNull Null = Null"
| "orNull v = v"

text \<open>\<open>Array.isArray\<close> and \<open>typeof v === "object"\<close> (which holds of null as well).\<close>

fun isArray :: "jsvalue \<Rightarrow> bool" where
  "isArray (Arr xs) = True"
| "isArray v = False"

fun isObject :: "jsvalue \<Rightarrow> bool" where
  "isObject Null = True"
| "isObject (Arr xs) = True"
| "isObject (Obj kvs) = True"
| "isObject v = False"

text \<open>Reading a property of an object and the elements of an array.\<close>

fun getProp :: "jsvalue \<Rightarrow> jsstring \<Rightarrow> jsvalue" where
  "getProp (Obj kvs) k = (case map_of kvs k of None \<Rightarrow> Undefined | Some v \<Rightarrow> v)"
| "getProp v k = Undefined"

fun elems :: "jsvalue \<Rightarrow> jsvalue list" where
  "elems (Arr xs) = xs"
| "elems v = []"

text \<open>Decimal rendering of an integral number, as a template literal does it.\<close>

fun digits :: "nat \<Rightarrow> jsstring" where
  "digits n = (if n < 10 then [of_nat (48 + n)] else digits (n div 10) @ [of_nat (48 + n mod 10)])"

definition Number_toString :: "int \<Rightarrow> jsstring" where
  "Number_toString i = (if i < 0 then js ''-'' @ digits (nat (- i)) else digits (nat i))"

text \<open>A template literal renders a missing property as the text \<open>undefined\<close>.\<close>

definition tpl :: "jsstring option \<Rightarrow> jsstring" where
  "tpl v = (case v of None \<Rightarrow> js ''undefined'' | Some s \<Rightarrow> s)"

definition tplNum :: "int option \<Rightarrow> jsstring" where
  "tplNum v = (case v of None \<Rightarrow> js ''undefined'' | Some n \<Rightarrow> Number_toString n)"

section \<open>The built-in \<open>encodeURIComponent\<close>\<close>

text \<open>
  Every code point outside \<open>A-Z a-z 0-9 - _ . ! ~ * ' ( )\<close> is replaced by the
  percent-escapes of its UTF-8 bytes; a surrogate that is not part of a pair raises
  \<open>URIError\<close>, which is the result \<open>None\<close>.
\<close>

definition unreserved :: "16 word \<Rightarrow> bool" where
  "unreserved c \<longleftrightarrow>
     (0x41 \<le> c \<and> c \<le> 0x5A) \<or> (0x61 \<le> c \<and> c \<le> 0x7A) \<or> (0x30 \<le> c \<and> c \<le> 0x39)
     \<or> c \<in> set (js ''-_.!~*'()'')"

definition hexDigit :: "nat \<Rightarrow> 16 word" where
  "hexDigit d = (if d < 10 then of_nat (48 + d) else of_nat (55 + d))"

definition percent :: "nat \<Rightarrow> jsstring" where
  "percent b = [0x25, hexDigit (b div 16), hexDigit (b mod 16)]"

definition utf8 :: "nat \<Rightarrow> nat list" where
  "utf8 cp =
     (if cp < 0x80 then [cp]
      else if cp < 0x800 then [0xC0 + cp div 64, 0x80 + cp mod 64]
      else if cp < 0x10000 then
        [0xE0 + cp div 4096, 0x80 + (cp div 64) mod 64, 0x80 + cp mod 64]
      else
        [0xF0 + cp div 262144, 0x80 + (cp div 4096) mod 64, 0x80 + (cp div 64) mod 64,
         0x80 + cp mod 64])"

definition isLead :: "16 word \<Rightarrow> bool" where
  "isLead c \<longleftrightarrow> 0xD800 \<le> c \<and> c \<le> 0xDBFF"

definition isTrail :: "16 word \<Rightarrow> bool" where
  "isTrail c \<longleftrightarrow> 0xDC00 \<le> c \<and> c \<le> 0xDFFF"

definition escapes :: "nat \<Rightarrow> jsstring" where
  "escapes cp = concat (map percent (utf8 cp))"

fun encodeURIComponent :: "jsstring \<Rightarrow> jsstring option" where
  "encodeURIComponent [] = Some []"
| "encodeURIComponent (c # cs) =
     (if unreserved c then map_option ((#) c) (encodeURIComponent cs)
      else if isTrail c then None
      else if isLead c then
        (case cs of
           [] \<Rightarrow> None
         | d # ds \<Rightarrow>
             if isTrail d
             then map_option
                    ((@) (escapes ((unat c - 0xD800) * 0x400 + (unat d - 0xDC00) + 0x10000)))
                    (encodeURIComponent ds)
             else None)
      else map_option ((@) (escapes (unat c))) (encodeURIComponent cs))"

section \<open>The HTTP client and the world around a call\<close>

text \<open>
  What the code reads of a thrown or rejected value: the response of an HTTP failure (absent
  for a connection-level failure and for any other exception), whether a request had been
  sent, and the message.
\<close>

record ErrorResponse =
  status :: int
  statusText :: "jsstring option"

record JsError =
  response :: "ErrorResponse option"
  request :: bool
  message :: jsstring

text \<open>\<open>new Error(msg)\<close>\<close>

definition Error :: "jsstring \<Rightarrow> JsError" where
  "Error msg = \<lparr>response = None, request = False, message = msg\<rparr>"

record AxiosResponse =
  data :: jsvalue

datatype HttpMethod = GET | POST

record AxiosCall =
  httpMethod :: HttpMethod
  url :: jsstring
  postData :: "jsstring option"
  headers :: "(string \<times> jsstring) list"
  timeout :: nat
  responseType :: "string option"
  validateStatus :: "(int \<Rightarrow> bool) option"

datatype Settled = Fulfilled AxiosResponse | Failed JsError

datatype Console = ConsoleError | ConsoleWarn | ConsoleLog

text \<open>
  The surroundings of a call: the outcome the HTTP client gives to the \<open>n\<close>-th call issued,
  and the user-agent string generated for it.
\<close>

record Env =
  transport :: "nat \<Rightarrow> AxiosCall \<Rightarrow> Settled"
  userAgent :: "nat \<Rightarrow> jsstring"

text \<open>The observable effects so far: the HTTP calls issued and the console lines written.\<close>

record World =
  requests :: "AxiosCall list"
  console :: "Console list"

definition issue :: "AxiosCall \<Rightarrow> World \<Rightarrow> World" where
  "issue call w = w\<lparr>requests := requests w @ [call]\<rparr>"

definition logs :: "Console list \<Rightarrow> World \<Rightarrow> World" where
  "logs ls w = w\<lparr>console := console w @ ls\<rparr>"

text \<open>
  How a call through the wrapper ends: \<open>.with()\<close> throws synchronously, or the promise of
  \<open>.doing()\<close> rejects or resolves.
\<close>

datatype Outcome = Thrown JsError | Rejects JsError | Resolves jsvalue

text \<open>An exception thrown inside a promise handler rejects the promise of the handler.\<close>

fun inHandler :: "Outcome \<times> World \<Rightarrow> Outcome \<times> World" where
  "inHandler (Thrown e, w) = (Rejects e, w)"
| "inHandler r = r"

text \<open>
  The parameter object, as the property bag it is at run time: \<open>retrieve\<close> reads the
  properties of the endpoint it serves, and a property that is not there is undefined.
  The two numbers of the audio endpoint are integral here.
\<close>

record Params =
  p_body :: "jsstring option"
  p_source :: "jsstring option"
  p_target :: "jsstring option"
  p_query :: "jsstring option"
  p_lang :: "jsstring option"
  p_text :: "jsstring option"
  p_textLength :: "int option"
  p_speed :: "int option"

definition noParams :: Params where
  "noParams = \<lparr>p_body = None, p_source = None, p_target = None, p_query = None,
     p_lang = None, p_text = None, p_textLength = None, p_speed = None\<rparr>"

definition INFO :: jsstring where "INFO = js ''info''"
definition TEXT :: jsstring where "TEXT = js ''text''"
definition AUDIO :: jsstring where "AUDIO = js ''audio''"

definition batchexecute :: jsstring where
  "batchexecute =
     js ''https://translate.google.com/_/TranslateWebserverUi/data/batchexecute?rpcids=MkEWBc&rt=c''"

section \<open>The request wrapper, first listing\<close>

text \<open>
  The sources hold two listings of \<open>utils/request.ts\<close>. This is the first (lines 1 to 167 of
  the file), the one with \<open>handleAxiosError\<close> and \<open>isRetryableError\<close>; its functions carry
  the suffix \<open>_1\<close>.
\<close>

definition handleAxiosError :: "JsError \<Rightarrow> jsstring \<Rightarrow> nat \<Rightarrow> JsError \<times> Console list" where
  "handleAxiosError error endpoint retry =
     (case response error of
        Some r \<Rightarrow>
          (Error
             (if status r = 429 then js ''Rate limit exceeded. Please try again later.''
              else if status r = 403 then js ''Access forbidden. Check your permissions.''
              else if status r = 404 then js ''Resource not found.''
              else if status r \<ge> 500 then js ''Server error. Please try again.''
              else js ''Server error ('' @ Number_toString (status r) @ js ''): ''
                     @ tpl (statusText r)),
           [ConsoleError, ConsoleError])
      | None \<Rightarrow>
          if request error
          then (Error (js ''No response received from server''), [ConsoleError, ConsoleError])
          else (Error (js ''Request setup error: '' @ message error),
                [ConsoleError, ConsoleError]))"

definition isRetryableError :: "JsError \<Rightarrow> bool" where
  "isRetryableError error =
     (case response error of None \<Rightarrow> True | Some r \<Rightarrow> status r \<ge> 500 \<or> status r = 429)"

text \<open>
  \<open>"length" in item\<close> and \<open>item.length <= 0\<close>, for an item whose \<open>typeof\<close> is
  \<open>"object"\<close>. The length of an array is its number of elements; on an object that is not
  an array the comparison is of whatever the property holds with zero, after JavaScript's
  conversion to a number: that comparison is the parameter \<open>leZero\<close>.
\<close>

fun length_in :: "jsvalue \<Rightarrow> bool" where
  "length_in (Arr xs) = True"
| "length_in (Obj kvs) = (map_of kvs (js ''length'') \<noteq> None)"
| "length_in v = False"

fun length_le_0 :: "(jsvalue \<Rightarrow> bool) \<Rightarrow> jsvalue \<Rightarrow> bool" where
  "length_le_0 leZero (Arr xs) = (length xs \<le> 0)"
| "length_le_0 leZero (Obj kvs) = leZero (getProp (Obj kvs) (js ''length''))"
| "length_le_0 leZero v = False"

definition isEmpty_1 :: "(jsvalue \<Rightarrow> bool) \<Rightarrow> jsvalue \<Rightarrow> bool" where
  "isEmpty_1 leZero item \<longleftrightarrow>
     \<not> truthy item \<or> (isObject item \<and> length_in item \<and> length_le_0 leZero item)"

definition baseConfig_1 :: "jsstring \<Rightarrow> AxiosCall" where
  "baseConfig_1 ua =
     \<lparr>httpMethod = GET, url = [], postData = None, headers = [(''User-Agent'', ua)],
      timeout = 10000, responseType = None, validateStatus = Some (\<lambda>status. status < 500)\<rparr>"

definition retrieve_1 :: "jsstring \<Rightarrow> jsstring \<Rightarrow> Params \<Rightarrow> JsError + AxiosCall" where
  "retrieve_1 ua endpoint params =
     (if endpoint = INFO then
        Inr ((baseConfig_1 ua)
          \<lparr>httpMethod := POST, url := batchexecute, postData := p_body params,
           headers := headers (baseConfig_1 ua) @
             [(''Content-Type'', js ''application/x-www-form-urlencoded'')]\<rparr>)
      else if endpoint = TEXT then
        Inr ((baseConfig_1 ua)
          \<lparr>url := js ''https://translate.google.com/m?sl='' @ tpl (p_source params)
             @ js ''&tl='' @ tpl (p_target params) @ js ''&q='' @ tpl (p_query params)\<rparr>)
      else if endpoint = AUDIO then
        Inr ((baseConfig_1 ua)
          \<lparr>url := js ''https://translate.google.com/translate_tts?tl='' @ tpl (p_lang params)
             @ js ''&q='' @ tpl (p_text params) @ js ''&textlen='' @ tplNum (p_textLength params)
             @ js ''&speed='' @ tplNum (p_speed params) @ js ''&client=tw-ob'',
           responseType := Some ''arraybuffer''\<rparr>)
      else Inl (Error (js ''Invalid endpoint'')))"

text \<open>
  \<open>request(endpoint, retry).with(params).doing(callback)\<close>: the chain
  \<open>promise.then(callback).catch(...).then(...)\<close>, one stage after the other.
\<close>

function doing_1 ::
  "(jsvalue \<Rightarrow> bool) \<Rightarrow> Env \<Rightarrow> (AxiosResponse \<Rightarrow> JsError + jsvalue) \<Rightarrow> jsstring \<Rightarrow> Params \<Rightarrow>
     nat \<Rightarrow> World \<Rightarrow> Outcome \<times> World" where
  "doing_1 leZero env callback endpoint params retry w =
     (case retrieve_1 (userAgent env (length (requests w))) endpoint params of
        Inl e \<Rightarrow> (Thrown e, w)
      | Inr call \<Rightarrow>
          (case
             (case (case transport env (length (requests w)) call of
                      Failed e \<Rightarrow> Inl e
                    | Fulfilled res \<Rightarrow> callback res) of
                Inr result \<Rightarrow> (Resolves result, issue call w)
              | Inl error \<Rightarrow>
                  if isRetryableError error \<and> retry < 3
                  then inHandler
                         (doing_1 leZero env callback endpoint params (retry + 1)
                            (logs (snd (handleAxiosError error endpoint retry) @ [ConsoleLog])
                               (issue call w)))
                  else (Rejects (fst (handleAxiosError error endpoint retry)),
                        logs (snd (handleAxiosError error endpoint retry)) (issue call w)))
           of
             (Resolves result, w') \<Rightarrow>
               if isEmpty_1 leZero result \<and> retry < 3
               then inHandler (doing_1 leZero env callback endpoint params (retry + 1) w')
               else (Resolves (orNull result), w')
           | (Rejects e, w') \<Rightarrow> (Rejects e, w')
           | (Thrown e, w') \<Rightarrow> (Thrown e, w')))"
  by pat_completeness auto
termination
  by (relation "measure (\<lambda>(leZero, env, callback, endpoint, params, retry, w). 3 - retry)") auto

definition request_1 ::
  "(jsvalue \<Rightarrow> bool) \<Rightarrow> Env \<Rightarrow> jsstring \<Rightarrow> Params \<Rightarrow> (AxiosResponse \<Rightarrow> JsError + jsvalue) \<Rightarrow>
     World \<Rightarrow> Outcome \<times> World" where
  "request_1 leZero env endpoint params callback w = doing_1 leZero env callback endpoint params 0 w"

section \<open>The request wrapper, second listing\<close>

text \<open>
  The second listing (lines 168 to 323 of the file), the documented one, which the tests of
  \<open>request.integration.test.ts\<close> exercise; its functions carry the suffix \<open>_2\<close>.
\<close>

definition isEmpty_2 :: "jsvalue \<Rightarrow> bool" where
  "isEmpty_2 item \<longleftrightarrow> \<not> truthy item \<or> (isArray item \<and> length (elems item) = 0)"

definition baseConfig_2 :: "jsstring \<Rightarrow> AxiosCall" where
  "baseConfig_2 ua =
     \<lparr>httpMethod = GET, url = [], postData = None, headers = [(''User-Agent'', ua)],
      timeout = 30000, responseType = None, validateStatus = None\<rparr>"

definition retrieve_2 :: "jsstring \<Rightarrow> jsstring \<Rightarrow> Params \<Rightarrow> JsError + AxiosCall" where
  "retrieve_2 ua endpoint params =
     (if endpoint = INFO then
        Inr ((baseConfig_2 ua)
          \<lparr>httpMethod := POST, url := batchexecute, postData := p_body params,
           headers := headers (baseConfig_2 ua) @
             [(''Content-Type'', js ''application/x-www-form-urlencoded'')]\<rparr>)
      else if endpoint = TEXT then
        (case encodeURIComponent (tpl (p_query params)) of
           None \<Rightarrow> Inl (Error (js ''URI malformed''))
         | Some q \<Rightarrow>
             Inr ((baseConfig_2 ua)
               \<lparr>url := js ''https://translate.google.com/m?sl='' @ tpl (p_source params)
                  @ js ''&tl='' @ tpl (p_target params) @ js ''&q='' @ q\<rparr>))
      else if endpoint = AUDIO then
        (case encodeURIComponent (tpl (p_text params)) of
           None \<Rightarrow> Inl (Error (js ''URI malformed''))
         | Some q \<Rightarrow>
             Inr ((baseConfig_2 ua)
               \<lparr>url := js ''https://translate.google.com/translate_tts?tl='' @ tpl (p_lang params)
                  @ js ''&q='' @ q @ js ''&textlen='' @ tplNum (p_textLength params)
                  @ js ''&speed='' @ tplNum (p_speed params) @ js ''&client=tw-ob'',
                responseType := Some ''arraybuffer'', timeout := 60000\<rparr>))
      else Inl (Error (js ''Invalid endpoint: '' @ endpoint)))"

definition shouldRetry :: "JsError \<Rightarrow> bool" where
  "shouldRetry error = (case response error of None \<Rightarrow> True | Some r \<Rightarrow> status r \<ge> 500)"

text \<open>
  The chain \<open>promise.then(...).catch(...)\<close>: the \<open>catch\<close> handler receives a failure of the
  HTTP call, an exception of the callback, and a failure of the call re-issued by the
  \<open>then\<close> handler.
\<close>

function doing_2 ::
  "Env \<Rightarrow> (AxiosResponse \<Rightarrow> JsError + jsvalue) \<Rightarrow> jsstring \<Rightarrow> Params \<Rightarrow>
     nat \<Rightarrow> World \<Rightarrow> Outcome \<times> World" where
  "doing_2 env callback endpoint params retry w =
     (case retrieve_2 (userAgent env (length (requests w))) endpoint params of
        Inl e \<Rightarrow> (Thrown e, w)
      | Inr call \<Rightarrow>
          (case
             (case transport env (length (requests w)) call of
                Failed e \<Rightarrow> (Rejects e, issue call w)
              | Fulfilled res \<Rightarrow>
                  (case callback res of
                     Inl e \<Rightarrow> (Rejects e, issue call w)
                   | Inr result \<Rightarrow>
                       if isEmpty_2 result \<and> retry < 3
                       then inHandler
                              (doing_2 env callback endpoint params (retry + 1)
                                 (logs [ConsoleWarn] (issue call w)))
                       else (Resolves (orNull result), issue call w)))
           of
             (Rejects error, w') \<Rightarrow>
               if shouldRetry error \<and> retry < 3
               then inHandler
                      (doing_2 env callback endpoint params (retry + 1)
                         (logs [ConsoleError, ConsoleWarn] w'))
               else (Resolves Null, logs [ConsoleError] w')
           | (Resolves result, w') \<Rightarrow> (Resolves result, w')
           | (Thrown e, w') \<Rightarrow> (Thrown e, w')))"
  by pat_completeness auto
termination
  by (relation "measure (\<lambda>(env, callback, endpoint, params, retry, w). 3 - retry)") auto

definition request_2 ::
  "Env \<Rightarrow> jsstring \<Rightarrow> Params \<Rightarrow> (AxiosResponse \<Rightarrow> JsError + jsvalue) \<Rightarrow>
     World \<Rightarrow> Outcome \<times> World" where
  "request_2 env endpoint params callback w = doing_2 env callback endpoint params 0 w"

section \<open>\<open>text.ts\<close>\<close>

text \<open>
  The table \<open>mappings.request\<close> of \<open>languages.json\<close> is a parameter, as is the text that
  cheerio selects under \<open>.result-container\<close> (trimmed).
\<close>

definition mapGoogleCode :: "(jsstring \<rightharpoonup> jsstring) \<Rightarrow> jsstring \<Rightarrow> jsstring" where
  "mapGoogleCode reqMappings langCode =
     (case reqMappings langCode of Some finalCode \<Rightarrow> finalCode | None \<Rightarrow> langCode)"

fun includes_str :: "jsstring \<Rightarrow> jsstring \<Rightarrow> bool" where
  "includes_str [] t = (t = [])"
| "includes_str (c # cs) t = (take (length t) (c # cs) = t \<or> includes_str cs t)"

definition textCallback :: "(jsvalue \<Rightarrow> jsstring) \<Rightarrow> AxiosResponse \<Rightarrow> JsError + jsvalue" where
  "textCallback resultContainer res =
     (if \<not> truthy (data res) then Inr Undefined
      else if resultContainer (data res) \<noteq> []
              \<and> \<not> includes_str (resultContainer (data res)) (js ''#af-error-page'')
      then Inr (Str (resultContainer (data res)))
      else Inr Null)"

text \<open>
  \<open>getTranslationText\<close> is an \<open>async\<close> function: an exception inside it rejects its promise.
  The wrapper it calls is the argument \<open>wrapper\<close>; the two instances below call the two
  listings of the wrapper.
\<close>

definition getTranslationText ::
  "(jsstring \<Rightarrow> Params \<Rightarrow> (AxiosResponse \<Rightarrow> JsError + jsvalue) \<Rightarrow> World \<Rightarrow> Outcome \<times> World) \<Rightarrow>
     (jsstring \<rightharpoonup> jsstring) \<Rightarrow> (jsvalue \<Rightarrow> jsstring) \<Rightarrow>
     jsstring \<Rightarrow> jsstring \<Rightarrow> jsstring \<Rightarrow> World \<Rightarrow> Outcome \<times> World" where
  "getTranslationText wrapper reqMappings resultContainer source target query w =
     (case encodeURIComponent query of
        None \<Rightarrow> (Rejects (Error (js ''URI malformed'')), w)
      | Some encodedQuery \<Rightarrow>
          if length encodedQuery > 7500 then (Resolves Null, w)
          else inHandler
                 (wrapper TEXT
                    (noParams\<lparr>p_source := Some (mapGoogleCode reqMappings source),
                       p_target := Some (mapGoogleCode reqMappings target),
                       p_query := Some encodedQuery\<rparr>)
                    (textCallback resultContainer) w))"

definition getTranslationText_1 ::
  "(jsvalue \<Rightarrow> bool) \<Rightarrow> Env \<Rightarrow> (jsstring \<rightharpoonup> jsstring) \<Rightarrow> (jsvalue \<Rightarrow> jsstring) \<Rightarrow>
     jsstring \<Rightarrow> jsstring \<Rightarrow> jsstring \<Rightarrow> World \<Rightarrow> Outcome \<times> World" where
  "getTranslationText_1 leZero env = getTranslationText (request_1 leZero env)"

definition getTranslationText_2 ::
  "Env \<Rightarrow> (jsstring \<rightharpoonup> jsstring) \<Rightarrow> (jsvalue \<Rightarrow> jsstring) \<Rightarrow>
     jsstring \<Rightarrow> jsstring \<Rightarrow> jsstring \<Rightarrow> World \<Rightarrow> Outcome \<times> World" where
  "getTranslationText_2 env = getTranslationText (request_2 env)"

section \<open>The parser: extra translations and \<open>undefinedFields\<close>\<close>

text \<open>
  Modelled from the spec: the type \<open>Data\<close> of \<open>types.ts\<close>, which is not among the sources.
  Of the payload, \<open>list.translations\<close> reads \<open>extra?.[5]?.[0]\<close>, a list of groups
  \<open>[type, transList]\<close> whose entries are the tuples \<open>[word, article, meanings, frequency]\<close>,
  the last one a number (the raw frequency rank). Each link of the chain may be absent.
\<close>

record RawTranslation =
  word :: jsstring
  article :: "jsstring option"
  meanings :: "jsstring list"
  frequency :: int

type_synonym RawGroup = "jsstring \<times> RawTranslation list option"

record Extra =
  slot5 :: "RawGroup list option option"

record Data =
  extra :: "Extra option"

definition extra_5_0 :: "Data \<Rightarrow> RawGroup list option" where
  "extra_5_0 d =
     (case extra d of None \<Rightarrow> None
      | Some e \<Rightarrow> (case slot5 e of None \<Rightarrow> None | Some s \<Rightarrow> s))"

definition translationEntry :: "RawTranslation \<Rightarrow> jsvalue" where
  "translationEntry t =
     Obj [(js ''word'', Str (word t)),
          (js ''article'', (case article t of None \<Rightarrow> Undefined | Some a \<Rightarrow> Str a)),
          (js ''meanings'', Arr (map Str (meanings t))),
          (js ''frequency'', Number (4 - frequency t))]"

definition list_translations :: "Data \<Rightarrow> jsvalue" where
  "list_translations d =
     (case extra_5_0 d of
        None \<Rightarrow> Arr []
      | Some groups \<Rightarrow>
          Arr (map (\<lambda>(type, transList).
                 Obj [(js ''type'', Str type),
                      (js ''list'',
                       (case transList of
                          None \<Rightarrow> Arr []
                        | Some l \<Rightarrow> Arr (map translationEntry l)))])
               groups))"

fun Object_entries :: "jsvalue \<Rightarrow> (jsstring \<times> jsvalue) list" where
  "Object_entries (Obj kvs) = kvs"
| "Object_entries v = []"

fun setEntry :: "jsstring \<Rightarrow> jsvalue \<Rightarrow> (jsstring \<times> jsvalue) list \<Rightarrow> (jsstring \<times> jsvalue) list" where
  "setEntry k v [] = [(k, v)]"
| "setEntry k v ((k', v') # es) =
     (if k = k' then (k, v) # es else (k', v') # setEntry k v es)"

definition Object_fromEntries :: "(jsstring \<times> jsvalue) list \<Rightarrow> jsvalue" where
  "Object_fromEntries es = Obj (foldl (\<lambda>obj (k, v). setEntry k v obj) [] es)"

text \<open>
  The parameter type of \<open>undefinedFields\<close> admits arrays and objects only, and the recursion
  reaches only those (null is filtered out before \<open>isObject\<close> is asked); the last equation
  is never used by the code.
\<close>

fun undefinedFields :: "jsvalue \<Rightarrow> jsvalue" where
  "undefinedFields (Arr xs) =
     Arr (map (\<lambda>item. if isObject item then undefinedFields item else item)
            (filter (\<lambda>item. truthy item) xs))"
| "undefinedFields (Obj kvs) =
     Object_fromEntries
       (map (\<lambda>(key, v). (key, if isObject v then undefinedFields v else v))
          (filter (\<lambda>entry. truthy (snd entry)) kvs))"
| "undefinedFields v = v"

section \<open>Scenarios\<close>

text \<open>
  The inputs at which the theorems below are instantiated: the mocked transports of
  \<open>request.integration.test.ts\<close> and a few more.
\<close>

definition emptyWorld :: World where
  "emptyWorld = \<lparr>requests = [], console = []\<rparr>"

definition serverError :: JsError where
  "serverError =
     \<lparr>response = Some \<lparr>status = 500, statusText = None\<rparr>,
      request = True, message = js ''Server Error''\<rparr>"

definition rateLimited :: JsError where
  "rateLimited =
     \<lparr>response = Some \<lparr>status = 429, statusText = Some (js ''Too Many Requests'')\<rparr>,
      request = True, message = js ''Request failed with status code 429''\<rparr>"

definition notFound :: JsError where
  "notFound =
     \<lparr>response = Some \<lparr>status = 404, statusText = Some (js ''Not Found'')\<rparr>,
      request = True, message = js ''Request failed with status code 404''\<rparr>"

definition networkError :: JsError where
  "networkError = \<lparr>response = None, request = True, message = js ''Network Error''\<rparr>"

definition alwaysFails :: "JsError \<Rightarrow> Env" where
  "alwaysFails e = \<lparr>transport = (\<lambda>n call. Failed e), userAgent = (\<lambda>n. js ''agent'')\<rparr>"

definition failsThenEmpty :: Env where
  "failsThenEmpty =
     \<lparr>transport = (\<lambda>n call. if n = 0 then Failed networkError else Fulfilled \<lparr>data = Str []\<rparr>),
      userAgent = (\<lambda>n. js ''agent'')\<rparr>"

definition emptyThenPopulated :: Env where
  "emptyThenPopulated =
     \<lparr>transport = (\<lambda>n call. if n = 0 then Fulfilled \<lparr>data = Str []\<rparr>
                             else Fulfilled \<lparr>data = Str (js ''Data on retry'')\<rparr>),
      userAgent = (\<lambda>n. js ''agent'')\<rparr>"

definition alwaysAnswers :: "jsvalue \<Rightarrow> Env" where
  "alwaysAnswers body =
     \<lparr>transport = (\<lambda>n call. Fulfilled \<lparr>data = body\<rparr>), userAgent = (\<lambda>n. js ''agent'')\<rparr>"

text \<open>The callback \<open>({ data }) => data || null\<close> of the tests.\<close>

definition dataOrNull :: "AxiosResponse \<Rightarrow> JsError + jsvalue" where
  "dataOrNull res = Inr (if truthy (data res) then data res else Null)"

definition testParams :: Params where
  "testParams =
     noParams\<lparr>p_source := Some (js ''en''), p_target := Some (js ''fr''),
       p_query := Some (js ''test'')\<rparr>"

text \<open>Values for the normaliser and the parser.\<close>

definition nestedSample :: jsvalue where
  "nestedSample =
     Obj [(js ''empty'', Arr []), (js ''missing'', Undefined), (js ''name'', Str (js ''x'')),
          (js ''nested'',
           Obj [(js ''empty'', Arr []), (js ''missing'', Undefined),
                (js ''name'', Str (js ''x''))])]"

definition leastFrequent :: RawTranslation where
  "leastFrequent = \<lparr>word = js ''ganar'', article = None, meanings = [js ''win''], frequency = 4\<rparr>"

section \<open>Auxiliary notions\<close>

text \<open>The promise resolved; the call did not throw synchronously.\<close>

definition resolved :: "Outcome \<times> World \<Rightarrow> bool" where
  "resolved x = (case fst x of Resolves v \<Rightarrow> True | _ \<Rightarrow> False)"

definition settled :: "Outcome \<times> World \<Rightarrow> bool" where
  "settled x = (case fst x of Thrown e \<Rightarrow> False | _ \<Rightarrow> True)"

text \<open>The HTTP calls a run has added to the world.\<close>

definition issued :: "World \<Rightarrow> Outcome \<times> World \<Rightarrow> AxiosCall list" where
  "issued w x = drop (length (requests w)) (requests (snd x))"

text \<open>
  The world \<open>w'\<close> holds the HTTP calls of \<open>w\<close> followed by calls that all satisfy \<open>Q\<close>.
\<close>

definition extends_by :: "(AxiosCall \<Rightarrow> bool) \<Rightarrow> World \<Rightarrow> World \<Rightarrow> bool" where
  "extends_by Q w w' \<longleftrightarrow>
     take (length (requests w)) (requests w') = requests w
     \<and> list_all Q (drop (length (requests w)) (requests w'))"

text \<open>No field of an object and no element of an array is falsy, at any depth.\<close>

fun stripped :: "jsvalue \<Rightarrow> bool" where
  "stripped (Arr xs) = list_all (\<lambda>x. truthy x \<and> stripped x) xs"
| "stripped (Obj kvs) = list_all (\<lambda>(k, v). truthy v \<and> stripped v) kvs"
| "stripped v = True"

section \<open>Basic facts\<close>

declare doing_1.simps [simp del] doing_2.simps [simp del]

lemma requests_issue [simp]: "requests (issue c w) = requests w @ [c]"
  by (simp add: issue_def)
lemma requests_logs [simp]: "requests (logs ls w) = requests w"
  by (simp add: logs_def)
lemma console_issue [simp]: "console (issue c w) = console w"
  by (simp add: issue_def)
lemma console_logs [simp]: "console (logs ls w) = console w @ ls"
  by (simp add: logs_def)

lemma isEmpty_1_simps [simp]:
  "isEmpty_1 leZero Undefined" "isEmpty_1 leZero Null" "isEmpty_1 leZero NaN"
  "isEmpty_1 leZero (Bool b) = (\<not> b)" "isEmpty_1 leZero (Number n) = (n = 0)"
  "isEmpty_1 leZero (Str s) = (s = [])" "isEmpty_1 leZero (Arr xs) = (xs = [])"
  "isEmpty_1 leZero (Obj kvs) =
     (case map_of kvs (js ''length'') of None \<Rightarrow> False | Some l \<Rightarrow> leZero l)"
  by (simp_all add: isEmpty_1_def split: option.splits)

lemma isEmpty_2_simps [simp]:
  "isEmpty_2 Undefined" "isEmpty_2 Null" "isEmpty_2 NaN"
  "isEmpty_2 (Bool b) = (\<not> b)" "isEmpty_2 (Number n) = (n = 0)"
  "isEmpty_2 (Str s) = (s = [])" "isEmpty_2 (Arr xs) = (xs = [])"
  "\<not> isEmpty_2 (Obj kvs)"
  by (simp_all add: isEmpty_2_def)

lemma retrieve_2_ua: "isl (retrieve_2 ua endpoint params) = isl (retrieve_2 ua' endpoint params)"
  by (simp add: retrieve_2_def split: option.splits)

lemma retrieve_1_ua: "isl (retrieve_1 ua endpoint params) = isl (retrieve_1 ua' endpoint params)"
  by (simp add: retrieve_1_def)

lemma resolved_simps [simp]:
  "resolved (Resolves v, w)" "\<not> resolved (Rejects e, w)" "\<not> resolved (Thrown e, w)"
  by (simp_all add: resolved_def)

lemma resolved_inHandler: "resolved x \<Longrightarrow> inHandler x = x"
  by (cases x rule: inHandler.cases) simp_all

lemma resolved_case:
  "resolved x \<Longrightarrow>
   (case x of (Thrown e, w') \<Rightarrow> F e w' | (Rejects e, w') \<Rightarrow> G e w' | (Resolves v, w') \<Rightarrow> (Resolves v, w')) = x"
  by (cases x rule: inHandler.cases) (simp_all split: Outcome.splits)

lemma doing_2_resolved:
  "\<not> isl (retrieve_2 ua endpoint params) \<Longrightarrow> resolved (doing_2 env callback endpoint params retry w)"
proof (induction "3 - retry" arbitrary: retry w)
  case 0
  then have r: "\<not> retry < 3" by simp
  from 0(2) retrieve_2_ua[of ua endpoint params "userAgent env (length (requests w))"]
  obtain call where c: "retrieve_2 (userAgent env (length (requests w))) endpoint params = Inr call"
    by (cases "retrieve_2 (userAgent env (length (requests w))) endpoint params") auto
  show ?case
    by (subst doing_2.simps) (simp add: c r split: Settled.splits sum.splits)
next
  case (Suc n)
  from Suc(3) retrieve_2_ua[of ua endpoint params "userAgent env (length (requests w))"]
  obtain call where c: "retrieve_2 (userAgent env (length (requests w))) endpoint params = Inr call"
    by (cases "retrieve_2 (userAgent env (length (requests w))) endpoint params") auto
  have n: "n = 3 - (retry + 1)" using Suc(2) by simp
  have ih: "\<And>w'. resolved (doing_2 env callback endpoint params (Suc retry) w')"
    using Suc(1)[OF n Suc(3)] by simp
  show ?case
    by (subst doing_2.simps)
      (simp add: c ih resolved_inHandler resolved_case split: Settled.splits sum.splits)
qed

lemma doing_2_step:
  assumes c: "retrieve_2 (userAgent env (length (requests w))) endpoint params = Inr call"
  shows "doing_2 env callback endpoint params retry w =
    (case (case transport env (length (requests w)) call of
             Failed e \<Rightarrow> Inl e | Fulfilled res \<Rightarrow> callback res) of
       Inl error \<Rightarrow>
         if shouldRetry error \<and> retry < 3
         then doing_2 env callback endpoint params (retry + 1)
                (logs [ConsoleError, ConsoleWarn] (issue call w))
         else (Resolves Null, logs [ConsoleError] (issue call w))
     | Inr result \<Rightarrow>
         if isEmpty_2 result \<and> retry < 3
         then doing_2 env callback endpoint params (retry + 1)
                (logs [ConsoleWarn] (issue call w))
         else (Resolves (orNull result), issue call w))"
proof -
  have v: "\<not> isl (retrieve_2 (userAgent env (length (requests w))) endpoint params)"
    by (simp add: c)
  have r: "\<And>w'. resolved (doing_2 env callback endpoint params (Suc retry) w')"
    using doing_2_resolved[OF v] .
  show ?thesis
    by (subst doing_2.simps)
      (simp add: c r resolved_inHandler resolved_case split: Settled.splits sum.splits)
qed

lemma doing_2_invalid:
  "retrieve_2 (userAgent env (length (requests w))) endpoint params = Inl e \<Longrightarrow>
   doing_2 env callback endpoint params retry w = (Thrown e, w)"
  by (subst doing_2.simps) simp

lemma doing_2_calls:
  assumes "\<not> isl (retrieve_2 ua endpoint params)"
  shows "retry \<le> 3 \<Longrightarrow>
     Suc (length (requests w)) \<le> length (requests (snd (doing_2 env callback endpoint params retry w)))
       \<and> length (requests (snd (doing_2 env callback endpoint params retry w))) + retry \<le> length (requests w) + 4"
proof (induction "3 - retry" arbitrary: retry w)
  case 0
  then have r: "\<not> retry < 3" by simp
  from assms retrieve_2_ua[of ua endpoint params "userAgent env (length (requests w))"]
  obtain call where c: "retrieve_2 (userAgent env (length (requests w))) endpoint params = Inr call"
    by (cases "retrieve_2 (userAgent env (length (requests w))) endpoint params") auto
  show ?case
    using 0 by (simp add: doing_2_step[OF c] r split: Settled.splits sum.splits)
next
  case (Suc n)
  from assms retrieve_2_ua[of ua endpoint params "userAgent env (length (requests w))"]
  obtain call where c: "retrieve_2 (userAgent env (length (requests w))) endpoint params = Inr call"
    by (cases "retrieve_2 (userAgent env (length (requests w))) endpoint params") auto
  have n: "n = 3 - Suc retry" and r: "Suc retry \<le> 3" using Suc(2) by simp_all
  note ih = Suc(1)[OF n r]
  show ?case
    using ih[of "logs [ConsoleError, ConsoleWarn] (issue call w)"] ih[of "logs [ConsoleWarn] (issue call w)"] Suc(3)
    by (auto simp add: doing_2_step[OF c] split: Settled.splits sum.splits)
qed


lemma settled_simps [simp]:
  "settled (Resolves v, w)" "settled (Rejects e, w)" "\<not> settled (Thrown e, w)"
  by (simp_all add: settled_def)

lemma settled_inHandler: "settled x \<Longrightarrow> inHandler x = x"
  by (cases x rule: inHandler.cases) simp_all

lemma inHandler_settled [simp]: "settled (inHandler x)"
  by (cases x rule: inHandler.cases) simp_all

lemma settled_case:
  "settled (case x of (Thrown e, w') \<Rightarrow> (Thrown e, w') | (Rejects e, w') \<Rightarrow> (Rejects e, w')
     | (Resolves v, w') \<Rightarrow> H v w')
   = (settled x \<and> (\<forall>v w'. x = (Resolves v, w') \<longrightarrow> settled (H v w')))"
  by (cases x rule: inHandler.cases) (simp_all split: Outcome.splits)

lemma doing_1_settled:
  "\<not> isl (retrieve_1 ua endpoint params) \<Longrightarrow>
   settled (doing_1 leZero env callback endpoint params retry w)"
proof -
  assume v: "\<not> isl (retrieve_1 ua endpoint params)"
  from v retrieve_1_ua[of ua endpoint params "userAgent env (length (requests w))"]
  obtain call where c: "retrieve_1 (userAgent env (length (requests w))) endpoint params = Inr call"
    by (cases "retrieve_1 (userAgent env (length (requests w))) endpoint params") auto
  show ?thesis
    by (subst doing_1.simps)
      (simp add: c settled_case split: Settled.splits sum.splits)
qed

lemma doing_1_step:
  assumes c: "retrieve_1 (userAgent env (length (requests w))) endpoint params = Inr call"
  shows "doing_1 leZero env callback endpoint params retry w =
    (case
       (case (case transport env (length (requests w)) call of
                Failed e \<Rightarrow> Inl e | Fulfilled res \<Rightarrow> callback res) of
          Inr result \<Rightarrow> (Resolves result, issue call w)
        | Inl error \<Rightarrow>
            if isRetryableError error \<and> retry < 3
            then doing_1 leZero env callback endpoint params (retry + 1)
                   (logs (snd (handleAxiosError error endpoint retry) @ [ConsoleLog])
                      (issue call w))
            else (Rejects (fst (handleAxiosError error endpoint retry)),
                  logs (snd (handleAxiosError error endpoint retry)) (issue call w)))
     of
       (Resolves result, w') \<Rightarrow>
         if isEmpty_1 leZero result \<and> retry < 3
         then doing_1 leZero env callback endpoint params (retry + 1) w'
         else (Resolves (orNull result), w')
     | (Rejects e, w') \<Rightarrow> (Rejects e, w')
     | (Thrown e, w') \<Rightarrow> (Thrown e, w'))"
proof -
  have v: "\<not> isl (retrieve_1 (userAgent env (length (requests w))) endpoint params)"
    by (simp add: c)
  have r: "\<And>w'. inHandler (doing_1 leZero env callback endpoint params (Suc retry) w')
              = doing_1 leZero env callback endpoint params (Suc retry) w'"
    using doing_1_settled[OF v] by (rule settled_inHandler)
  show ?thesis
    by (subst doing_1.simps)
      (simp add: c r split: Settled.splits sum.splits prod.splits Outcome.splits)
qed

lemma doing_1_invalid:
  "retrieve_1 (userAgent env (length (requests w))) endpoint params = Inl e \<Longrightarrow>
   doing_1 leZero env callback endpoint params retry w = (Thrown e, w)"
  by (subst doing_1.simps) simp

lemma doing_1_grows:
  assumes "\<not> isl (retrieve_1 ua endpoint params)"
  shows "Suc (length (requests w)) \<le> length (requests (snd (doing_1 leZero env callback endpoint params retry w)))"
proof (induction "3 - retry" arbitrary: retry w)
  case 0
  then have r: "\<not> retry < 3" by simp
  from assms retrieve_1_ua[of ua endpoint params "userAgent env (length (requests w))"]
  obtain call where c: "retrieve_1 (userAgent env (length (requests w))) endpoint params = Inr call"
    by (cases "retrieve_1 (userAgent env (length (requests w))) endpoint params") auto
  show ?case
    by (simp add: doing_1_step[OF c] r split: Settled.splits sum.splits)
next
  case (Suc n)
  from assms retrieve_1_ua[of ua endpoint params "userAgent env (length (requests w))"]
  obtain call where c: "retrieve_1 (userAgent env (length (requests w))) endpoint params = Inr call"
    by (cases "retrieve_1 (userAgent env (length (requests w))) endpoint params") auto
  have n: "n = 3 - Suc retry" using Suc(2) by simp
  have ih: "\<And>w'. Suc (length (requests w')) \<le> length (requests (snd (doing_1 leZero env callback endpoint params (Suc retry) w')))"
    using Suc(1)[OF n] .
  have ih2: "\<And>w' o1 w1. doing_1 leZero env callback endpoint params (Suc retry) w' = (o1, w1) \<Longrightarrow> Suc (length (requests w')) \<le> length (requests w1)"
    using ih by (metis snd_conv)
  have le: "\<And>w'. length (requests w') \<le> length (requests (snd (doing_1 leZero env callback endpoint params (Suc retry) w')))"
    using ih by (meson Suc_leD)
  define inner where "inner =
       (case (case transport env (length (requests w)) call of
                Failed e \<Rightarrow> Inl e | Fulfilled res \<Rightarrow> callback res) of
          Inr result \<Rightarrow> (Resolves result, issue call w)
        | Inl error \<Rightarrow>
            if isRetryableError error \<and> retry < 3
            then doing_1 leZero env callback endpoint params (retry + 1)
                   (logs (snd (handleAxiosError error endpoint retry) @ [ConsoleLog])
                      (issue call w))
            else (Rejects (fst (handleAxiosError error endpoint retry)),
                  logs (snd (handleAxiosError error endpoint retry)) (issue call w)))"
  have a: "Suc (length (requests w)) \<le> length (requests (snd inner))"
    unfolding inner_def
    using le[of "logs (snd (handleAxiosError e endpoint retry) @ [ConsoleLog]) (issue call w)" for e]
    by (auto split: Settled.splits sum.splits)
  have b: "length (requests (snd inner)) \<le>
      length (requests (snd (case inner of
       (Resolves result, w') \<Rightarrow>
         if isEmpty_1 leZero result \<and> retry < 3
         then doing_1 leZero env callback endpoint params (retry + 1) w'
         else (Resolves (orNull result), w')
     | (Rejects e, w') \<Rightarrow> (Rejects e, w')
     | (Thrown e, w') \<Rightarrow> (Thrown e, w'))))"
    using le by (cases inner rule: inHandler.cases) (auto split: Outcome.splits)
  show ?case
    unfolding doing_1_step[OF c] inner_def[symmetric] using a b by linarith
qed

lemmas scenario_defs = emptyWorld_def serverError_def rateLimited_def notFound_def networkError_def
  alwaysFails_def failsThenEmpty_def emptyThenPopulated_def alwaysAnswers_def dataOrNull_def
  testParams_def noParams_def

lemma endpoints_distinct: "TEXT \<noteq> INFO" "TEXT \<noteq> AUDIO" "INFO \<noteq> AUDIO"
  by (simp_all add: TEXT_def INFO_def AUDIO_def js_def)

lemma retrieve_1_TEXT:
  "retrieve_1 ua TEXT params = Inr ((baseConfig_1 ua)
          \<lparr>url := js ''https://translate.google.com/m?sl='' @ tpl (p_source params)
             @ js ''&tl='' @ tpl (p_target params) @ js ''&q='' @ tpl (p_query params)\<rparr>)"
  by (simp add: retrieve_1_def endpoints_distinct)

lemma doing_2_never_rejects:
  "fst (doing_2 env callback endpoint params retry w) \<noteq> Rejects e"
proof (cases "retrieve_2 (userAgent env (length (requests w))) endpoint params")
  case (Inl e')
  then show ?thesis by (simp add: doing_2_invalid)
next
  case (Inr call)
  then have "resolved (doing_2 env callback endpoint params retry w)"
    by (intro doing_2_resolved[of "userAgent env (length (requests w))"]) simp
  then show ?thesis by (auto simp: resolved_def)
qed

lemma doing_2_gives_up:
  assumes "retrieve_2 (userAgent env (length (requests w))) endpoint params = Inr call"
    and "transport env (length (requests w)) call = Failed error"
    and "\<not> shouldRetry error \<or> 3 \<le> retry"
  shows "doing_2 env callback endpoint params retry w
           = (Resolves Null, logs [ConsoleError] (issue call w))"
  using assms(2,3) by (auto simp add: doing_2_step[OF assms(1)])

lemma request_2_at_most_four_calls:
  "length (requests (snd (request_2 env endpoint params callback w))) \<le> length (requests w) + 4"
proof (cases "retrieve_2 (userAgent env (length (requests w))) endpoint params")
  case (Inl e)
  then show ?thesis by (simp add: request_2_def doing_2_invalid)
next
  case (Inr call)
  then have "\<not> isl (retrieve_2 (userAgent env (length (requests w))) endpoint params)" by simp
  from doing_2_calls[OF this, of 0 w env callback] show ?thesis
    by (simp add: request_2_def)
qed

lemma doing_2_always_5xx:
  assumes v: "\<not> isl (retrieve_2 ua endpoint params)"
    and f: "\<And>n call. \<exists>e r. transport env n call = Failed e \<and> response e = Some r \<and> status r \<ge> 500"
  shows "retry \<le> 3 \<Longrightarrow>
     fst (doing_2 env callback endpoint params retry w) = Resolves Null
     \<and> length (requests (snd (doing_2 env callback endpoint params retry w))) + retry
         = length (requests w) + 4
     \<and> length (filter ((=) ConsoleError) (console (snd (doing_2 env callback endpoint params retry w)))) + retry
         = length (filter ((=) ConsoleError) (console w)) + 4
     \<and> length (filter ((=) ConsoleWarn) (console (snd (doing_2 env callback endpoint params retry w)))) + retry
         = length (filter ((=) ConsoleWarn) (console w)) + 3"
proof (induction "3 - retry" arbitrary: retry w)
  case 0
  then have r: "\<not> retry < 3" "retry = 3" by simp_all
  from v retrieve_2_ua[of ua endpoint params "userAgent env (length (requests w))"]
  obtain call where c: "retrieve_2 (userAgent env (length (requests w))) endpoint params = Inr call"
    by (cases "retrieve_2 (userAgent env (length (requests w))) endpoint params") auto
  from f obtain e where e: "transport env (length (requests w)) call = Failed e" by blast
  show ?case
    by (simp add: doing_2_step[OF c] e r)
next
  case (Suc n)
  from v retrieve_2_ua[of ua endpoint params "userAgent env (length (requests w))"]
  obtain call where c: "retrieve_2 (userAgent env (length (requests w))) endpoint params = Inr call"
    by (cases "retrieve_2 (userAgent env (length (requests w))) endpoint params") auto
  from f obtain e r where e: "transport env (length (requests w)) call = Failed e"
    "response e = Some r" "status r \<ge> 500" by blast
  have s: "shouldRetry e" by (simp add: shouldRetry_def e)
  have n: "n = 3 - Suc retry" and r: "Suc retry \<le> 3" "retry < 3" using Suc(2) by simp_all
  note ih = Suc(1)[OF n r(1), of "logs [ConsoleError, ConsoleWarn] (issue call w)"]
  show ?case
    using ih by (simp add: doing_2_step[OF c] e s r)
qed

section \<open>C1: failures never reject the promise\<close>

text \<open>
  Of the second listing the claim holds: its promise never rejects
  (\<open>doing_2_never_rejects\<close>), and a failure that is not retried resolves to null
  (\<open>doing_2_gives_up\<close>).
\<close>

text \<open>
  C1. When the HTTP call fails with a non-retryable error, or when all retries are exhausted,
  the promise of the retry wrapper resolves to null and never rejects. The first listing
  does otherwise: against a transport that always answers 500 it rejects, after the fourth
  attempt, with the error built by \<open>handleAxiosError\<close>; and a failure with status 404,
  which it does not retry, rejects at once.
\<close>

theorem C1_first_listing_rejects:
  "fst (request_1 leZero (alwaysFails serverError) TEXT testParams dataOrNull emptyWorld)
     = Rejects (Error (js ''Server error. Please try again.''))
   \<and> fst (request_1 leZero (alwaysFails notFound) TEXT testParams dataOrNull emptyWorld)
     = Rejects (Error (js ''Resource not found.''))"
  by (simp add: request_1_def doing_1.simps retrieve_1_TEXT scenario_defs
      isRetryableError_def handleAxiosError_def)

section \<open>C2: at most four HTTP attempts\<close>

text \<open>
  Of the second listing the claim holds: a call issues at most four HTTP calls
  (\<open>request_2_at_most_four_calls\<close>), and against a transport that always fails with a
  status of 500 or more it issues exactly four, logs four errors and three warnings, and
  resolves to null (\<open>doing_2_always_5xx\<close>).
\<close>

text \<open>
  C2. Every call through the retry wrapper ends after at most 4 HTTP attempts, and against a
  transport that always fails with a 5xx status exactly 4 calls are issued and the result is
  null. The first listing retries in two places, in its \<open>catch\<close> handler and again in the
  \<open>then\<close> handler that follows it: when the first attempt fails at the connection level
  and every later one returns an empty body, it issues 7 HTTP calls. Against the transport
  that always answers 500 it issues 4 calls and its promise does not resolve.
\<close>

theorem C2_first_listing_exceeds_four_calls:
  "length (requests (snd (request_1 leZero failsThenEmpty TEXT testParams dataOrNull emptyWorld))) = 7
   \<and> length (requests (snd (request_1 leZero (alwaysFails serverError) TEXT testParams dataOrNull
          emptyWorld))) = 4
   \<and> \<not> resolved (request_1 leZero (alwaysFails serverError) TEXT testParams dataOrNull emptyWorld)"
  by (simp add: request_1_def doing_1.simps retrieve_1_TEXT scenario_defs
      isRetryableError_def handleAxiosError_def)

section \<open>C3: which failures are retried\<close>

lemma retrieve_1_TEXT_test:
  "retrieve_1 ua TEXT testParams = Inr ((baseConfig_1 ua)
     \<lparr>url := js ''https://translate.google.com/m?sl=en&tl=fr&q=test''\<rparr>)"
  by (simp add: retrieve_1_TEXT testParams_def noParams_def tpl_def js_def)

lemma retrieve_2_TEXT_test:
  "retrieve_2 ua TEXT testParams = Inr ((baseConfig_2 ua)
     \<lparr>url := js ''https://translate.google.com/m?sl=en&tl=fr&q=test''\<rparr>)"
  by (simp add: retrieve_2_def endpoints_distinct testParams_def noParams_def tpl_def js_def
      unreserved_def isLead_def isTrail_def)

text \<open>
  C3, as stated: a failed HTTP call is retried exactly when the failure is a connection-level
  error, a 5xx status or the status 429. The second listing does not retry a 429: the
  attempt that fails with it is the only HTTP call, and the promise resolves to null.
\<close>

theorem C3_second_listing_does_not_retry_429:
  "map_option status (response rateLimited) = Some 429
   \<and> transport (alwaysFails rateLimited) 0
        ((baseConfig_2 (js ''agent''))\<lparr>url := js ''https://translate.google.com/m?sl=en&tl=fr&q=test''\<rparr>)
       = Failed rateLimited
   \<and> request_2 (alwaysFails rateLimited) TEXT testParams dataOrNull emptyWorld
       = (Resolves Null,
          \<lparr>requests = [(baseConfig_2 (js ''agent''))\<lparr>url := js ''https://translate.google.com/m?sl=en&tl=fr&q=test''\<rparr>],
           console = [ConsoleError]\<rparr>)"
  by (simp add: request_2_def doing_2.simps retrieve_2_TEXT_test alwaysFails_def rateLimited_def
      emptyWorld_def shouldRetry_def issue_def logs_def)

text \<open>
  C3, amended. A failed HTTP call is retried, by both listings, exactly when fewer than 3
  retries have been made and the failure has no response (a connection-level error) or a
  status of 500 or more. The status 429 is retried (under the same cap) by the first
  listing, whose \<open>isRetryableError\<close> names it, and not by the second, whose \<open>shouldRetry\<close>
  is \<open>!error.response || error.response.status >= 500\<close>. No other status is retried.
  A call is retried when more HTTP calls follow the failed one.
\<close>

theorem C3_retry_classification:
  "(retrieve_1 (userAgent env (length (requests w))) endpoint params = Inr call \<longrightarrow>
    transport env (length (requests w)) call = Failed error \<longrightarrow>
      (Suc (length (requests w))
         < length (requests (snd (doing_1 leZero env callback endpoint params retry w)))
       \<longleftrightarrow> retry < 3 \<and>
           (response error = None
            \<or> (\<exists>r. response error = Some r \<and> (500 \<le> status r \<or> status r = 429)))))
   \<and> (retrieve_2 (userAgent env (length (requests w))) endpoint params = Inr call \<longrightarrow>
      transport env (length (requests w)) call = Failed error \<longrightarrow>
      (Suc (length (requests w))
         < length (requests (snd (doing_2 env callback endpoint params retry w)))
       \<longleftrightarrow> retry < 3 \<and>
           (response error = None \<or> (\<exists>r. response error = Some r \<and> 500 \<le> status r))))"
proof (intro conjI impI)
  assume c: "retrieve_1 (userAgent env (length (requests w))) endpoint params = Inr call"
    and f: "transport env (length (requests w)) call = Failed error"
  have v: "\<not> isl (retrieve_1 (userAgent env (length (requests w))) endpoint params)"
    by (simp add: c)
  have cl: "isRetryableError error \<longleftrightarrow>
      (response error = None \<or> (\<exists>r. response error = Some r \<and> (500 \<le> status r \<or> status r = 429)))"
    by (simp add: isRetryableError_def split: option.splits)
  let ?retried = "doing_1 leZero env callback endpoint params (retry + 1)
       (logs (snd (handleAxiosError error endpoint retry) @ [ConsoleLog]) (issue call w))"
  have g: "Suc (length (requests (issue call w))) \<le> length (requests (snd ?retried))"
    using doing_1_grows[OF v, of "logs (snd (handleAxiosError error endpoint retry) @ [ConsoleLog]) (issue call w)" leZero env callback "retry + 1"] by simp
  have s: "settled ?retried" using doing_1_settled[OF v] .
  show "(Suc (length (requests w))
         < length (requests (snd (doing_1 leZero env callback endpoint params retry w))))
       \<longleftrightarrow> (retry < 3 \<and>
           (response error = None
            \<or> (\<exists>r. response error = Some r \<and> (500 \<le> status r \<or> status r = 429))))"
  proof (cases "isRetryableError error \<and> retry < 3")
    case True
    obtain out w' where o: "?retried = (out, w')" by (cases ?retried)
    have g': "Suc (Suc (length (requests w))) \<le> length (requests w')" using g o by simp
    have g'': "\<And>res. length (requests w') \<le> length (requests (snd (doing_1 leZero env callback endpoint params (retry + 1) w')))"
      using doing_1_grows[OF v, of w' leZero env callback "retry + 1"] by simp
    have "Suc (Suc (length (requests w))) \<le> length (requests (snd (doing_1 leZero env callback endpoint params retry w)))"
      using True g' g'' o by (cases out) (auto simp add: doing_1_step[OF c] f intro: order_trans)
    with True cl show ?thesis by auto
  next
    case False
    then have "length (requests (snd (doing_1 leZero env callback endpoint params retry w))) = Suc (length (requests w))"
      by (auto simp add: doing_1_step[OF c] f)
    with False cl show ?thesis by auto
  qed
next
  assume c: "retrieve_2 (userAgent env (length (requests w))) endpoint params = Inr call"
    and f: "transport env (length (requests w)) call = Failed error"
  have v: "\<not> isl (retrieve_2 (userAgent env (length (requests w))) endpoint params)"
    by (simp add: c)
  have cl: "shouldRetry error \<longleftrightarrow>
      (response error = None \<or> (\<exists>r. response error = Some r \<and> 500 \<le> status r))"
    by (simp add: shouldRetry_def split: option.splits)
  show "(Suc (length (requests w))
         < length (requests (snd (doing_2 env callback endpoint params retry w))))
       \<longleftrightarrow> (retry < 3 \<and>
           (response error = None \<or> (\<exists>r. response error = Some r \<and> 500 \<le> status r)))"
  proof (cases "shouldRetry error \<and> retry < 3")
    case True
    then have r: "Suc retry \<le> 3" by simp
    from doing_2_calls[OF v r, of "logs [ConsoleError, ConsoleWarn] (issue call w)" env callback]
    have "Suc (Suc (length (requests w))) \<le> length (requests (snd (doing_2 env callback endpoint params retry w)))"
      using True by (simp add: doing_2_step[OF c] f)
    with True cl show ?thesis by auto
  next
    case False
    then have "length (requests (snd (doing_2 env callback endpoint params retry w))) = Suc (length (requests w))"
      by (auto simp add: doing_2_step[OF c] f)
    with False cl show ?thesis by auto
  qed
qed

theorem C3_retry_classification_witness:
  "retrieve_1 (js ''agent'') TEXT testParams
     = Inr ((baseConfig_1 (js ''agent''))
         \<lparr>url := js ''https://translate.google.com/m?sl=en&tl=fr&q=test''\<rparr>)
   \<and> retrieve_2 (js ''agent'') TEXT testParams
     = Inr ((baseConfig_2 (js ''agent''))
         \<lparr>url := js ''https://translate.google.com/m?sl=en&tl=fr&q=test''\<rparr>)
   \<and> Suc 0 < length (requests (snd (doing_1 (\<lambda>v. False) (alwaysFails rateLimited) dataOrNull
                 TEXT testParams 0 emptyWorld)))
   \<and> \<not> Suc 0 < length (requests (snd (doing_2 (alwaysFails rateLimited) dataOrNull
                 TEXT testParams 0 emptyWorld)))
   \<and> Suc 0 < length (requests (snd (doing_2 (alwaysFails serverError) dataOrNull
                 TEXT testParams 0 emptyWorld)))
   \<and> \<not> Suc 0 < length (requests (snd (doing_1 (\<lambda>v. False) (alwaysFails notFound) dataOrNull
                 TEXT testParams 0 emptyWorld)))"
  using
    C3_retry_classification[where env = "alwaysFails rateLimited" and w = emptyWorld
      and endpoint = TEXT and params = testParams and error = rateLimited and retry = 0
      and leZero = "\<lambda>v. False" and callback = dataOrNull
      and call = "(baseConfig_1 (js ''agent''))
         \<lparr>url := js ''https://translate.google.com/m?sl=en&tl=fr&q=test''\<rparr>"]
    C3_retry_classification[where env = "alwaysFails rateLimited" and w = emptyWorld
      and endpoint = TEXT and params = testParams and error = rateLimited and retry = 0
      and leZero = "\<lambda>v. False" and callback = dataOrNull
      and call = "(baseConfig_2 (js ''agent''))
         \<lparr>url := js ''https://translate.google.com/m?sl=en&tl=fr&q=test''\<rparr>"]
    C3_retry_classification[where env = "alwaysFails serverError" and w = emptyWorld
      and endpoint = TEXT and params = testParams and error = serverError and retry = 0
      and leZero = "\<lambda>v. False" and callback = dataOrNull
      and call = "(baseConfig_2 (js ''agent''))
         \<lparr>url := js ''https://translate.google.com/m?sl=en&tl=fr&q=test''\<rparr>"]
    C3_retry_classification[where env = "alwaysFails notFound" and w = emptyWorld
      and endpoint = TEXT and params = testParams and error = notFound and retry = 0
      and leZero = "\<lambda>v. False" and callback = dataOrNull
      and call = "(baseConfig_1 (js ''agent''))
         \<lparr>url := js ''https://translate.google.com/m?sl=en&tl=fr&q=test''\<rparr>"]
  by (simp add: retrieve_1_TEXT_test retrieve_2_TEXT_test alwaysFails_def rateLimited_def
      serverError_def notFound_def emptyWorld_def)

section \<open>C4: an empty result is retried\<close>

lemma js_eq_Nil: "js s = [] \<longleftrightarrow> s = []"
  by (simp add: js_def)

lemma isEmpty_2_absent: "result \<in> {Undefined, Null, Str [], Arr []} \<Longrightarrow> isEmpty_2 result"
  by auto

lemma isEmpty_1_absent: "result \<in> {Undefined, Null, Str [], Arr []} \<Longrightarrow> isEmpty_1 leZero result"
  by auto

lemma populated_1_orNull: "\<not> isEmpty_1 leZero v \<Longrightarrow> orNull v = v"
  by (cases v) simp_all

lemma populated_2_orNull: "\<not> isEmpty_2 v \<Longrightarrow> orNull v = v"
  by (cases v) simp_all

text \<open>
  C4. If the callback produces an absent or empty value (undefined, null, the empty string
  or the empty array) and fewer than 3 retries have been made, the whole call is issued
  again with the same endpoint, parameters and callback and the attempt counter incremented
  (the second listing logs a warning first). Hence, when the first HTTP call returns an
  empty result and the second a populated one, exactly these 2 calls are issued and the
  promise resolves to the populated result. Both listings do so.
\<close>

theorem C4_empty_result_is_reissued:
  "(retrieve_1 (userAgent env (length (requests w))) endpoint params = Inr call \<longrightarrow>
    transport env (length (requests w)) call = Fulfilled res \<longrightarrow>
    callback res = Inr result \<longrightarrow> result \<in> {Undefined, Null, Str [], Arr []} \<longrightarrow>
    retry < 3 \<longrightarrow>
      doing_1 leZero env callback endpoint params retry w
        = doing_1 leZero env callback endpoint params (retry + 1) (issue call w)
      \<and> (retrieve_1 (userAgent env (Suc (length (requests w)))) endpoint params = Inr next_call \<longrightarrow>
         transport env (Suc (length (requests w))) next_call = Fulfilled next_res \<longrightarrow>
         callback next_res = Inr populated \<longrightarrow> \<not> isEmpty_1 leZero populated \<longrightarrow>
           doing_1 leZero env callback endpoint params retry w
             = (Resolves populated, issue next_call (issue call w))))
   \<and> (retrieve_2 (userAgent env (length (requests w))) endpoint params = Inr call' \<longrightarrow>
    transport env (length (requests w)) call' = Fulfilled res \<longrightarrow>
    callback res = Inr result \<longrightarrow> result \<in> {Undefined, Null, Str [], Arr []} \<longrightarrow>
    retry < 3 \<longrightarrow>
      doing_2 env callback endpoint params retry w
        = doing_2 env callback endpoint params (retry + 1) (logs [ConsoleWarn] (issue call' w))
      \<and> (retrieve_2 (userAgent env (Suc (length (requests w)))) endpoint params = Inr next_call' \<longrightarrow>
         transport env (Suc (length (requests w))) next_call' = Fulfilled next_res \<longrightarrow>
         callback next_res = Inr populated \<longrightarrow> \<not> isEmpty_2 populated \<longrightarrow>
           doing_2 env callback endpoint params retry w
             = (Resolves populated, issue next_call' (logs [ConsoleWarn] (issue call' w)))))"
proof (intro conjI impI)
  assume c: "retrieve_1 (userAgent env (length (requests w))) endpoint params = Inr call"
    and t: "transport env (length (requests w)) call = Fulfilled res"
    and r: "callback res = Inr result"
    and e: "result \<in> {Undefined, Null, Str [], Arr []}"
    and n: "retry < 3"
  show 1: "doing_1 leZero env callback endpoint params retry w
        = doing_1 leZero env callback endpoint params (retry + 1) (issue call w)"
    using isEmpty_1_absent[OF e] by (simp add: doing_1_step[OF c] t r n)
  assume c': "retrieve_1 (userAgent env (Suc (length (requests w)))) endpoint params = Inr next_call"
    and t': "transport env (Suc (length (requests w))) next_call = Fulfilled next_res"
    and r': "callback next_res = Inr populated"
    and p: "\<not> isEmpty_1 leZero populated"
  have c'': "retrieve_1 (userAgent env (length (requests (issue call w)))) endpoint params = Inr next_call"
    using c' by simp
  show "doing_1 leZero env callback endpoint params retry w
             = (Resolves populated, issue next_call (issue call w))"
    unfolding 1 using p by (simp add: doing_1_step[OF c''] t' r' populated_1_orNull)
next
  assume c: "retrieve_2 (userAgent env (length (requests w))) endpoint params = Inr call'"
    and t: "transport env (length (requests w)) call' = Fulfilled res"
    and r: "callback res = Inr result"
    and e: "result \<in> {Undefined, Null, Str [], Arr []}"
    and n: "retry < 3"
  show 1: "doing_2 env callback endpoint params retry w
        = doing_2 env callback endpoint params (retry + 1) (logs [ConsoleWarn] (issue call' w))"
    using isEmpty_2_absent[OF e] by (simp add: doing_2_step[OF c] t r n)
  assume c': "retrieve_2 (userAgent env (Suc (length (requests w)))) endpoint params = Inr next_call'"
    and t': "transport env (Suc (length (requests w))) next_call' = Fulfilled next_res"
    and r': "callback next_res = Inr populated"
    and p: "\<not> isEmpty_2 populated"
  have c'': "retrieve_2 (userAgent env (length (requests (logs [ConsoleWarn] (issue call' w))))) endpoint params = Inr next_call'"
    using c' by simp
  show "doing_2 env callback endpoint params retry w
             = (Resolves populated, issue next_call' (logs [ConsoleWarn] (issue call' w)))"
    unfolding 1 using p by (simp add: doing_2_step[OF c''] t' r' populated_2_orNull)
qed

theorem C4_empty_result_is_reissued_witness:
  "request_1 (\<lambda>v. False) emptyThenPopulated TEXT testParams dataOrNull emptyWorld
     = (Resolves (Str (js ''Data on retry'')),
        \<lparr>requests =
           [(baseConfig_1 (js ''agent''))
              \<lparr>url := js ''https://translate.google.com/m?sl=en&tl=fr&q=test''\<rparr>,
            (baseConfig_1 (js ''agent''))
              \<lparr>url := js ''https://translate.google.com/m?sl=en&tl=fr&q=test''\<rparr>],
         console = []\<rparr>)
   \<and> request_2 emptyThenPopulated TEXT testParams dataOrNull emptyWorld
     = (Resolves (Str (js ''Data on retry'')),
        \<lparr>requests =
           [(baseConfig_2 (js ''agent''))
              \<lparr>url := js ''https://translate.google.com/m?sl=en&tl=fr&q=test''\<rparr>,
            (baseConfig_2 (js ''agent''))
              \<lparr>url := js ''https://translate.google.com/m?sl=en&tl=fr&q=test''\<rparr>],
         console = [ConsoleWarn]\<rparr>)"
  using C4_empty_result_is_reissued[where env = emptyThenPopulated and w = emptyWorld
      and endpoint = TEXT and params = testParams and callback = dataOrNull and retry = 0
      and leZero = "\<lambda>v. False" and res = "\<lparr>data = Str []\<rparr>" and result = Null
      and next_res = "\<lparr>data = Str (js ''Data on retry'')\<rparr>"
      and populated = "Str (js ''Data on retry'')"
      and call = "(baseConfig_1 (js ''agent''))
         \<lparr>url := js ''https://translate.google.com/m?sl=en&tl=fr&q=test''\<rparr>"
      and next_call = "(baseConfig_1 (js ''agent''))
         \<lparr>url := js ''https://translate.google.com/m?sl=en&tl=fr&q=test''\<rparr>"
      and call' = "(baseConfig_2 (js ''agent''))
         \<lparr>url := js ''https://translate.google.com/m?sl=en&tl=fr&q=test''\<rparr>"
      and next_call' = "(baseConfig_2 (js ''agent''))
         \<lparr>url := js ''https://translate.google.com/m?sl=en&tl=fr&q=test''\<rparr>"]
  by (auto simp add: request_1_def request_2_def retrieve_1_TEXT_test retrieve_2_TEXT_test
      emptyThenPopulated_def emptyWorld_def dataOrNull_def issue_def logs_def js_eq_Nil)

section \<open>C5: an endpoint outside the enumeration\<close>

lemma retrieve_1_invalid:
  "endpoint \<notin> {INFO, TEXT, AUDIO} \<Longrightarrow>
   retrieve_1 ua endpoint params = Inl (Error (js ''Invalid endpoint''))"
  by (simp add: retrieve_1_def)

lemma retrieve_2_invalid:
  "endpoint \<notin> {INFO, TEXT, AUDIO} \<Longrightarrow>
   retrieve_2 ua endpoint params = Inl (Error (js ''Invalid endpoint: '' @ endpoint))"
  by (simp add: retrieve_2_def)

lemma request_2_invalid_endpoint:
  "endpoint \<notin> {INFO, TEXT, AUDIO} \<Longrightarrow>
   request_2 env endpoint params callback w
     = (Thrown (Error (js ''Invalid endpoint: '' @ endpoint)), w)"
  by (simp add: request_2_def doing_2_invalid retrieve_2_invalid)

lemma request_1_invalid_endpoint:
  "endpoint \<notin> {INFO, TEXT, AUDIO} \<Longrightarrow>
   request_1 leZero env endpoint params callback w = (Thrown (Error (js ''Invalid endpoint'')), w)"
  by (simp add: request_1_def doing_1_invalid retrieve_1_invalid)

text \<open>
  Of the second listing the claim holds (\<open>request_2_invalid_endpoint\<close>): the call throws
  synchronously, before any HTTP call, and the message ends in the selector.
\<close>

text \<open>
  C5. Invoking the transport with an endpoint selector outside \<open>info\<close>, \<open>text\<close>, \<open>audio\<close>
  throws a synchronous error whose message identifies the invalid selector. The first
  listing throws synchronously too, but its message is the fixed text \<open>Invalid endpoint\<close>,
  the same for every selector; the test of the repository expects
  \<open>Invalid endpoint: invalid\<close>, which is what the second listing throws.
\<close>

theorem C5_first_listing_message_omits_selector:
  "request_1 leZero env (js ''invalid'') noParams callback w
     = (Thrown (Error (js ''Invalid endpoint'')), w)
   \<and> request_1 leZero env (js ''video'') noParams callback w
     = (Thrown (Error (js ''Invalid endpoint'')), w)
   \<and> request_2 env (js ''invalid'') noParams callback w
     = (Thrown (Error (js ''Invalid endpoint: invalid'')), w)"
proof -
  have 1: "js ''invalid'' \<notin> {INFO, TEXT, AUDIO}" "js ''video'' \<notin> {INFO, TEXT, AUDIO}"
    by (simp_all add: INFO_def TEXT_def AUDIO_def js_def)
  have 2: "js ''Invalid endpoint: '' @ js ''invalid'' = js ''Invalid endpoint: invalid''"
    by (simp add: js_def)
  show ?thesis
    using request_1_invalid_endpoint[OF 1(1)] request_1_invalid_endpoint[OF 1(2)]
      request_2_invalid_endpoint[OF 1(1)] 2 by simp
qed

section \<open>C6: what \<open>undefinedFields\<close> strips\<close>

lemma setEntry_set: "set (setEntry k v es) \<subseteq> insert (k, v) (set es)"
  by (induction es) (auto split: if_splits)

lemma setEntry_fresh: "k \<notin> fst ` set es \<Longrightarrow> setEntry k v es = es @ [(k, v)]"
  by (induction es) (auto split: if_splits)

lemma setEntry_keys: "fst ` set (setEntry k v es) = insert k (fst ` set es)"
proof (induction es)
  case Nil
  then show ?case by simp
next
  case (Cons e es)
  obtain k' v' where e: "e = (k', v')" by (cases e)
  show ?case
  proof (cases "k = k'")
    case True
    then show ?thesis by (simp add: e)
  next
    case False
    then show ?thesis using Cons by (simp add: e insert_commute)
  qed
qed

lemma foldl_setEntry_set:
  "set (foldl (\<lambda>obj (k, v). setEntry k v obj) acc es) \<subseteq> set acc \<union> set es"
proof (induction es arbitrary: acc)
  case Nil
  then show ?case by simp
next
  case (Cons e es)
  obtain k v where e: "e = (k, v)" by (cases e)
  from Cons[of "setEntry k v acc"] setEntry_set[of k v acc] show ?case
    by (auto simp add: e)
qed

lemma foldl_setEntry_keys:
  "fst ` set (foldl (\<lambda>obj (k, v). setEntry k v obj) acc es) = fst ` set acc \<union> fst ` set es"
proof (induction es arbitrary: acc)
  case Nil
  then show ?case by simp
next
  case (Cons e es)
  obtain k v where e: "e = (k, v)" by (cases e)
  show ?case
    unfolding e using Cons[of "setEntry k v acc"] by (simp add: setEntry_keys Un_insert_left)
qed

lemma foldl_setEntry_distinct:
  "distinct (map fst (acc @ es)) \<Longrightarrow> foldl (\<lambda>obj (k, v). setEntry k v obj) acc es = acc @ es"
proof (induction es arbitrary: acc)
  case Nil
  then show ?case by simp
next
  case (Cons e es)
  obtain k v where e: "e = (k, v)" by (cases e)
  from Cons(2) have f: "k \<notin> fst ` set acc" by (auto simp add: e)
  from Cons(2) have d: "distinct (map fst ((acc @ [(k, v)]) @ es))" by (simp add: e)
  show ?case
    using Cons(1)[OF d] by (simp add: e setEntry_fresh[OF f])
qed

lemma Object_fromEntries_distinct:
  "distinct (map fst es) \<Longrightarrow> Object_fromEntries es = Obj es"
  using foldl_setEntry_distinct[of "[]" es] by (simp add: Object_fromEntries_def)

lemma Object_fromEntries_entries:
  "set (Object_entries (Object_fromEntries es)) \<subseteq> set es"
  using foldl_setEntry_set[of "[]" es] by (simp add: Object_fromEntries_def)

lemma Object_fromEntries_keys:
  "fst ` set (Object_entries (Object_fromEntries es)) = fst ` set es"
  using foldl_setEntry_keys[of "[]" es] by (simp add: Object_fromEntries_def)

lemma stripped_primitive: "\<not> isObject v \<Longrightarrow> stripped v"
  by (cases v) simp_all

lemma truthy_undefinedFields: "truthy v \<Longrightarrow> truthy (undefinedFields v)"
  by (cases v) (simp_all add: Object_fromEntries_def)

lemma obj_entry:
  assumes "(k, v) \<in> set (map (\<lambda>(key, v). (key, if isObject v then undefinedFields v else v))
          (filter (\<lambda>entry. truthy (snd entry)) kvs))"
  obtains v0 where "(k, v0) \<in> set kvs" "truthy v0" "v = (if isObject v0 then undefinedFields v0 else v0)"
proof -
  from assms obtain e where e: "e \<in> set kvs" "truthy (snd e)"
    "(k, v) = (case e of (key, v) \<Rightarrow> (key, if isObject v then undefinedFields v else v))"
    unfolding set_map set_filter by blast
  obtain k0 v0 where "e = (k0, v0)" by (cases e)
  with e that show ?thesis by simp
qed

lemma stripped_undefinedFields: "stripped (undefinedFields v)"
proof (induction v rule: undefinedFields.induct)
  case (1 xs)
  then show ?case
    by (auto simp add: list_all_iff truthy_undefinedFields stripped_primitive)
next
  case (2 kvs)
  let ?es = "map (\<lambda>(key, v). (key, if isObject v then undefinedFields v else v))
          (filter (\<lambda>entry. truthy (snd entry)) kvs)"
  have good: "truthy v \<and> stripped v" if "(k, v) \<in> set ?es" for k v
  proof -
    from that obtain v0 where m: "(k, v0) \<in> set kvs" "truthy v0"
      and v: "v = (if isObject v0 then undefinedFields v0 else v0)" by (rule obj_entry)
    show ?thesis
    proof (cases "isObject v0")
      case True
      have "(k, v0) \<in> set (filter (\<lambda>entry. truthy (snd entry)) kvs)" using m by simp
      from 2[OF this refl True] have "stripped (undefinedFields v0)" .
      with True v m show ?thesis by (simp add: truthy_undefinedFields)
    next
      case False
      with m v show ?thesis by (simp add: stripped_primitive)
    qed
  qed
  have "truthy v \<and> stripped v" if "(k, v) \<in> set (Object_entries (Object_fromEntries ?es))" for k v
    using that Object_fromEntries_entries[of ?es] good by blast
  then have "list_all (\<lambda>(k, v). truthy v \<and> stripped v) (Object_entries (Object_fromEntries ?es))"
    unfolding list_all_iff by blast
  then show ?case
    by (simp add: Object_fromEntries_def)
qed simp_all

lemma undefinedFields_Obj_distinct:
  assumes "distinct (map fst kvs)"
  shows "undefinedFields (Obj kvs)
    = Obj (map (\<lambda>(key, v). (key, if isObject v then undefinedFields v else v))
             (filter (\<lambda>entry. truthy (snd entry)) kvs))"
proof -
  let ?es = "map (\<lambda>(key, v). (key, if isObject v then undefinedFields v else v))
             (filter (\<lambda>entry. truthy (snd entry)) kvs)"
  have eq: "map fst ?es = map fst (filter (\<lambda>entry. truthy (snd entry)) kvs)"
    by (simp add: case_prod_beta)
  have "distinct (map fst ?es)"
    unfolding eq using assms by (rule distinct_map_filter)
  then have "Object_fromEntries ?es = Obj ?es" by (rule Object_fromEntries_distinct)
  then show ?thesis by simp
qed

lemma undefinedFields_keys:
  "fst ` set (Object_entries (undefinedFields (Obj kvs)))
     = fst ` set (filter (\<lambda>entry. truthy (snd entry)) kvs)"
proof -
  have "fst ` set (map (\<lambda>(key, v). (key, if isObject v then undefinedFields v else v))
             (filter (\<lambda>entry. truthy (snd entry)) kvs))
        = fst ` set (filter (\<lambda>entry. truthy (snd entry)) kvs)"
    by (force simp add: case_prod_beta)
  then show ?thesis by (simp add: Object_fromEntries_keys)
qed

lemma falsy_field_dropped:
  assumes "distinct (map fst kvs)" "(k, v) \<in> set kvs" "\<not> truthy v"
  shows "k \<notin> fst ` set (Object_entries (undefinedFields (Obj kvs)))"
proof
  assume "k \<in> fst ` set (Object_entries (undefinedFields (Obj kvs)))"
  then obtain v' where "(k, v') \<in> set kvs" "truthy v'"
    unfolding undefinedFields_keys by auto
  with assms(1,2) have "v' = v" by (meson eq_key_imp_eq_value)
  with \<open>truthy v'\<close> assms(3) show False by simp
qed

lemma getProp_absent: "k \<notin> fst ` set (Object_entries obj) \<Longrightarrow> getProp obj k = Undefined"
  by (cases obj) (simp_all add: map_of_eq_None_iff[THEN iffD2])

text \<open>
  C6, as stated: \<open>undefinedFields\<close> strips every field that is undefined, null, an empty
  string or an empty array, so that of a nested object with an empty array, an undefined
  field and a populated field only the populated field remains at every depth. The filter
  is \<open>!!value\<close>, and an empty array is truthy: the field holding the empty array remains,
  at the top and in the nested object.
\<close>

theorem C6_empty_array_is_kept:
  "undefinedFields nestedSample
     = Obj [(js ''empty'', Arr []), (js ''name'', Str (js ''x'')),
            (js ''nested'', Obj [(js ''empty'', Arr []), (js ''name'', Str (js ''x''))])]
   \<and> getProp (undefinedFields nestedSample) (js ''empty'') = Arr []
   \<and> getProp (getProp (undefinedFields nestedSample) (js ''nested'')) (js ''empty'') = Arr []"
  by (simp add: nestedSample_def Object_fromEntries_def js_def)

text \<open>
  C6, amended. \<open>undefinedFields\<close> recursively strips every object field and every array
  element whose value is falsy (undefined, null, the empty string, and also 0, NaN and
  false), in nested objects and arrays alike, and keeps every other field and element, in
  order, with objects and arrays among them normalised in turn; an empty array or an empty
  object is truthy and is kept. Applied to a nested object containing an empty array, an
  undefined field and a populated field, it retains the populated field and the empty
  array at every nesting depth.
\<close>

theorem C6_strips_falsy_keeps_empty_arrays:
  "stripped (undefinedFields v)
   \<and> elems (undefinedFields (Arr xs))
       = map (\<lambda>item. if isObject item then undefinedFields item else item)
           (filter (\<lambda>item. truthy item) xs)
   \<and> (distinct (map fst kvs) \<longrightarrow>
        Object_entries (undefinedFields (Obj kvs))
          = map (\<lambda>(key, v). (key, if isObject v then undefinedFields v else v))
              (filter (\<lambda>entry. truthy (snd entry)) kvs))
   \<and> truthy (Arr []) \<and> undefinedFields (Arr []) = Arr []
   \<and> truthy (Obj []) \<and> undefinedFields (Obj []) = Obj []"
proof -
  have "distinct (map fst kvs) \<longrightarrow>
        Object_entries (undefinedFields (Obj kvs))
          = map (\<lambda>(key, v). (key, if isObject v then undefinedFields v else v))
              (filter (\<lambda>entry. truthy (snd entry)) kvs)"
    using undefinedFields_Obj_distinct[of kvs] by (simp del: undefinedFields.simps(2))
  moreover have "undefinedFields (Obj []) = Obj []"
    by (simp add: Object_fromEntries_def)
  ultimately show ?thesis
    by (simp add: stripped_undefinedFields del: undefinedFields.simps(2))
qed

theorem C6_strips_falsy_keeps_empty_arrays_witness:
  "distinct (map fst (Object_entries nestedSample))
   \<and> Object_entries (undefinedFields nestedSample)
       = [(js ''empty'', Arr []), (js ''name'', Str (js ''x'')),
          (js ''nested'', Obj [(js ''empty'', Arr []), (js ''name'', Str (js ''x''))])]
   \<and> stripped (undefinedFields nestedSample)"
  using C6_strips_falsy_keeps_empty_arrays[where v = nestedSample
      and kvs = "Object_entries nestedSample" and xs = "[]"]
  by (simp add: nestedSample_def Object_fromEntries_def js_def)

section \<open>C7: the limit of 7500 characters\<close>

lemmas encode_defs = unreserved_def isLead_def isTrail_def escapes_def utf8_def percent_def
  hexDigit_def

lemma unreserved_ascii: "unreserved c \<Longrightarrow> c < 0x80"
  by (auto simp add: unreserved_def js_def word_le_nat_alt word_less_nat_alt)

lemma hexDigit_ascii: "d < 16 \<Longrightarrow> hexDigit d < 0x80"
proof -
  assume d: "d < 16"
  have "unat (of_nat (48 + d) :: 16 word) = 48 + d" "unat (of_nat (55 + d) :: 16 word) = 55 + d"
    using d unfolding unat_of_nat by simp_all
  then show ?thesis using d unfolding hexDigit_def word_less_nat_alt by simp
qed

lemma percent_ascii: "b < 256 \<Longrightarrow> c \<in> set (percent b) \<Longrightarrow> c < 0x80"
  by (auto simp add: percent_def intro!: hexDigit_ascii)

lemma utf8_bytes: "cp < 0x110000 \<Longrightarrow> b \<in> set (utf8 cp) \<Longrightarrow> b < 256"
  by (auto simp add: utf8_def split: if_splits)

lemma escapes_ascii: "cp < 0x110000 \<Longrightarrow> c \<in> set (escapes cp) \<Longrightarrow> c < 0x80"
  by (auto simp add: escapes_def dest: utf8_bytes percent_ascii)

lemma unit_below: "unat (c :: 16 word) < 0x110000"
  using unsigned_less[of c, where 'a = nat] by simp

lemma pair_below:
  "isLead c \<Longrightarrow> isTrail d \<Longrightarrow> (unat c - 0xD800) * 0x400 + (unat d - 0xDC00) + 0x10000 < 0x110000"
  by (simp add: isLead_def isTrail_def word_le_nat_alt) arith

lemma encodeURIComponent_ascii:
  "encodeURIComponent s = Some e \<Longrightarrow> c \<in> set e \<Longrightarrow> c < 0x80"
proof (induction s arbitrary: e rule: encodeURIComponent.induct)
  case 1
  then show ?case by simp
next
  case (2 u us)
  show ?case
  proof (cases "unreserved u")
    case True
    with 2 show ?thesis by (auto dest: unreserved_ascii)
  next
    case False
    note nu = this
    show ?thesis
    proof (cases "isTrail u")
      case True
      with nu 2(4) show ?thesis by simp
    next
      case False
      note nt = this
      show ?thesis
      proof (cases "isLead u")
        case True
        with nu nt 2(4) obtain d ds where us: "us = d # ds" and d: "isTrail d"
          by (cases us) (auto split: if_splits)
        from nu nt True us d 2(4) obtain r where r: "encodeURIComponent ds = Some r"
          and e: "e = escapes ((unat u - 0xD800) * 0x400 + (unat d - 0xDC00) + 0x10000) @ r"
          by auto
        from 2(2)[OF nu nt True us d r] 2(5) e escapes_ascii[OF pair_below[OF True d]]
        show ?thesis by auto
      next
        case False
        from nu nt False 2(4) obtain r where r: "encodeURIComponent us = Some r"
          and e: "e = escapes (unat u) @ r"
          by auto
        from 2(3)[OF nu nt False r] 2(5) e escapes_ascii[OF unit_below[of u]]
        show ?thesis by auto
      qed
    qed
  qed
qed

lemma encodeURIComponent_of_ascii:
  "\<forall>c \<in> set s. c < 0x80 \<Longrightarrow> \<exists>e. encodeURIComponent s = Some e"
proof (induction s)
  case Nil
  then show ?case by simp
next
  case (Cons c cs)
  then have "c < 0x80" by simp
  then have "\<not> isTrail c" "\<not> isLead c"
    by (simp_all add: isTrail_def isLead_def word_le_nat_alt word_less_nat_alt)
  with Cons show ?case by auto
qed

lemma encodeURIComponent_twice:
  "encodeURIComponent s = Some e \<Longrightarrow> \<exists>e'. encodeURIComponent e = Some e'"
  by (intro encodeURIComponent_of_ascii ballI) (rule encodeURIComponent_ascii)

lemma snd_inHandler: "snd (inHandler x) = snd x"
  by (cases x rule: inHandler.cases) simp_all


lemma retrieve_2_TEXT_encoded:
  assumes "encodeURIComponent query = Some encoded"
  shows "\<not> isl (retrieve_2 ua TEXT (noParams\<lparr>p_source := Some s, p_target := Some t,
            p_query := Some encoded\<rparr>))"
proof -
  from encodeURIComponent_twice[OF assms] obtain e' where "encodeURIComponent encoded = Some e'" ..
  then show ?thesis
    by (simp add: retrieve_2_def endpoints_distinct tpl_def noParams_def)
qed

lemma retrieve_1_TEXT_valid: "\<not> isl (retrieve_1 ua TEXT params)"
  by (simp add: retrieve_1_TEXT)

text \<open>
  C7. For every query whose URL-escaped form is longer than 7500 characters,
  \<open>getTranslationText\<close> resolves to null and the world is unchanged: no HTTP call is
  issued. A query whose escaped form has at most 7500 characters goes to the wrapper, which
  issues at least one HTTP call. Both hold whichever listing of the wrapper is called. (A
  query with a lone surrogate has no escaped form: \<open>encodeURIComponent\<close> throws.)
\<close>

theorem C7_long_queries_issue_no_call:
  "(encodeURIComponent query = Some encoded \<longrightarrow> 7500 < length encoded \<longrightarrow>
      getTranslationText_1 leZero env reqMappings resultContainer source target query w
        = (Resolves Null, w)
      \<and> getTranslationText_2 env reqMappings resultContainer source target query w
        = (Resolves Null, w))
   \<and> (encodeURIComponent query = Some encoded \<longrightarrow> length encoded \<le> 7500 \<longrightarrow>
      length (requests w)
        < length (requests (snd (getTranslationText_1 leZero env reqMappings resultContainer
                                   source target query w)))
      \<and> length (requests w)
        < length (requests (snd (getTranslationText_2 env reqMappings resultContainer
                                   source target query w))))"
proof (intro conjI impI)
  assume "encodeURIComponent query = Some encoded" "7500 < length encoded"
  then show "getTranslationText_1 leZero env reqMappings resultContainer source target query w
        = (Resolves Null, w)"
    and "getTranslationText_2 env reqMappings resultContainer source target query w
        = (Resolves Null, w)"
    by (simp_all add: getTranslationText_1_def getTranslationText_2_def getTranslationText_def)
next
  assume e: "encodeURIComponent query = Some encoded" and l: "length encoded \<le> 7500"
  let ?params = "noParams\<lparr>p_source := Some (mapGoogleCode reqMappings source),
                       p_target := Some (mapGoogleCode reqMappings target),
                       p_query := Some encoded\<rparr>"
  from doing_1_grows[OF retrieve_1_TEXT_valid, of w leZero env "textCallback resultContainer" ?params 0]
  show "length (requests w)
        < length (requests (snd (getTranslationText_1 leZero env reqMappings resultContainer
                                   source target query w)))"
    using e l
    by (simp add: getTranslationText_1_def getTranslationText_def request_1_def snd_inHandler)
  from doing_2_calls[OF retrieve_2_TEXT_encoded[OF e, where s = "mapGoogleCode reqMappings source"
        and t = "mapGoogleCode reqMappings target"], of 0 w env "textCallback resultContainer"]
  show "length (requests w)
        < length (requests (snd (getTranslationText_2 env reqMappings resultContainer
                                   source target query w)))"
    using e l
    by (simp add: getTranslationText_2_def getTranslationText_def request_2_def snd_inHandler)
qed

lemma encodeURIComponent_replicate_a:
  "encodeURIComponent (replicate n 0x61) = Some (replicate n 0x61)"
  by (induction n) (simp_all add: unreserved_def)

theorem C7_long_queries_issue_no_call_witness:
  "getTranslationText_1 (\<lambda>v. False) (alwaysAnswers (Str (js ''<html>''))) Map.empty
       (\<lambda>v. js ''ganar'') (js ''auto'') (js ''es'') (replicate 7501 0x61) emptyWorld
     = (Resolves Null, emptyWorld)
   \<and> getTranslationText_2 (alwaysAnswers (Str (js ''<html>''))) Map.empty
       (\<lambda>v. js ''ganar'') (js ''auto'') (js ''es'') (replicate 7501 0x61) emptyWorld
     = (Resolves Null, emptyWorld)
   \<and> 0 < length (requests (snd (getTranslationText_1 (\<lambda>v. False)
              (alwaysAnswers (Str (js ''<html>''))) Map.empty
              (\<lambda>v. js ''ganar'') (js ''auto'') (js ''es'') (replicate 7500 0x61) emptyWorld)))
   \<and> 0 < length (requests (snd (getTranslationText_2
              (alwaysAnswers (Str (js ''<html>''))) Map.empty
              (\<lambda>v. js ''ganar'') (js ''auto'') (js ''es'') (replicate 7500 0x61) emptyWorld)))"
  using
    C7_long_queries_issue_no_call[where query = "replicate 7501 0x61"
      and encoded = "replicate 7501 0x61" and w = emptyWorld and leZero = "\<lambda>v. False"
      and env = "alwaysAnswers (Str (js ''<html>''))" and reqMappings = Map.empty
      and resultContainer = "\<lambda>v. js ''ganar''" and source = "js ''auto''" and target = "js ''es''"]
    C7_long_queries_issue_no_call[where query = "replicate 7500 0x61"
      and encoded = "replicate 7500 0x61" and w = emptyWorld and leZero = "\<lambda>v. False"
      and env = "alwaysAnswers (Str (js ''<html>''))" and reqMappings = Map.empty
      and resultContainer = "\<lambda>v. js ''ganar''" and source = "js ''auto''" and target = "js ''es''"]
  by (simp add: encodeURIComponent_replicate_a emptyWorld_def)

section \<open>C8: the query is escaped once\<close>

lemma extends_by_iff:
  "extends_by Q w w' \<longleftrightarrow> (\<exists>cs. requests w' = requests w @ cs \<and> list_all Q cs)"
proof
  assume "extends_by Q w w'"
  then have "requests w' = requests w @ drop (length (requests w)) (requests w')"
    and "list_all Q (drop (length (requests w)) (requests w'))"
    unfolding extends_by_def by (metis append_take_drop_id, simp)
  then show "\<exists>cs. requests w' = requests w @ cs \<and> list_all Q cs" by blast
next
  assume "\<exists>cs. requests w' = requests w @ cs \<and> list_all Q cs"
  then show "extends_by Q w w'" by (auto simp add: extends_by_def)
qed

lemma extends_by_refl: "extends_by Q w w"
  by (simp add: extends_by_def)

lemma extends_by_logs [simp]: "extends_by Q w (logs ls w') = extends_by Q w w'"
  "extends_by Q (logs ls w) w' = extends_by Q w w'"
  by (simp_all add: extends_by_def)

lemma extends_by_issue: "Q c \<Longrightarrow> extends_by Q w (issue c w)"
  by (simp add: extends_by_def)

lemma extends_by_trans: "extends_by Q w w' \<Longrightarrow> extends_by Q w' w'' \<Longrightarrow> extends_by Q w w''"
  by (auto simp add: extends_by_iff)

lemma doing_1_extends:
  "extends_by (\<lambda>c. \<exists>ua. retrieve_1 ua endpoint params = Inr c) w
     (snd (doing_1 leZero env callback endpoint params retry w))"
proof (induction "3 - retry" arbitrary: retry w)
  case 0
  then have r: "\<not> retry < 3" by simp
  show ?case
  proof (cases "retrieve_1 (userAgent env (length (requests w))) endpoint params")
    case (Inl e)
    then show ?thesis by (simp add: doing_1_invalid extends_by_refl)
  next
    case (Inr call)
    then have "extends_by (\<lambda>c. \<exists>ua. retrieve_1 ua endpoint params = Inr c) w (issue call w)"
      by (intro extends_by_issue) blast
    then show ?thesis
      by (simp add: doing_1_step[OF Inr] r split: Settled.splits sum.splits)
  qed
next
  case (Suc n)
  let ?Q = "\<lambda>c. \<exists>ua. retrieve_1 ua endpoint params = Inr c"
  have n: "n = 3 - Suc retry" using Suc(2) by simp
  have ih: "\<And>w'. extends_by ?Q w' (snd (doing_1 leZero env callback endpoint params (Suc retry) w'))"
    using Suc(1)[OF n] .
  show ?case
  proof (cases "retrieve_1 (userAgent env (length (requests w))) endpoint params")
    case (Inl e)
    then show ?thesis by (simp add: doing_1_invalid extends_by_refl)
  next
    case (Inr call)
    have i: "extends_by ?Q w (issue call w)"
      using Inr by (intro extends_by_issue) blast
    define inner where "inner =
       (case (case transport env (length (requests w)) call of
                Failed e \<Rightarrow> Inl e | Fulfilled res \<Rightarrow> callback res) of
          Inr result \<Rightarrow> (Resolves result, issue call w)
        | Inl error \<Rightarrow>
            if isRetryableError error \<and> retry < 3
            then doing_1 leZero env callback endpoint params (retry + 1)
                   (logs (snd (handleAxiosError error endpoint retry) @ [ConsoleLog])
                      (issue call w))
            else (Rejects (fst (handleAxiosError error endpoint retry)),
                  logs (snd (handleAxiosError error endpoint retry)) (issue call w)))"
    have a: "extends_by ?Q w (snd inner)"
      unfolding inner_def
      using i extends_by_trans[OF i ih[of "logs (snd (handleAxiosError e endpoint retry) @ [ConsoleLog]) (issue call w)" for e, simplified]]
      by (auto split: Settled.splits sum.splits)
    have b: "extends_by ?Q (snd inner)
      (snd (case inner of
       (Resolves result, w') \<Rightarrow>
         if isEmpty_1 leZero result \<and> retry < 3
         then doing_1 leZero env callback endpoint params (retry + 1) w'
         else (Resolves (orNull result), w')
     | (Rejects e, w') \<Rightarrow> (Rejects e, w')
     | (Thrown e, w') \<Rightarrow> (Thrown e, w')))"
      using ih by (cases inner rule: inHandler.cases) (auto simp add: extends_by_refl split: Outcome.splits)
    show ?thesis
      unfolding doing_1_step[OF Inr] inner_def[symmetric] using extends_by_trans[OF a b] .
  qed
qed

lemma doing_2_extends:
  "extends_by (\<lambda>c. \<exists>ua. retrieve_2 ua endpoint params = Inr c) w
     (snd (doing_2 env callback endpoint params retry w))"
proof (induction "3 - retry" arbitrary: retry w)
  case 0
  then have r: "\<not> retry < 3" by simp
  show ?case
  proof (cases "retrieve_2 (userAgent env (length (requests w))) endpoint params")
    case (Inl e)
    then show ?thesis by (simp add: doing_2_invalid extends_by_refl)
  next
    case (Inr call)
    then have "extends_by (\<lambda>c. \<exists>ua. retrieve_2 ua endpoint params = Inr c) w (issue call w)"
      by (intro extends_by_issue) blast
    then show ?thesis
      by (simp add: doing_2_step[OF Inr] r split: Settled.splits sum.splits)
  qed
next
  case (Suc n)
  let ?Q = "\<lambda>c. \<exists>ua. retrieve_2 ua endpoint params = Inr c"
  have n: "n = 3 - Suc retry" using Suc(2) by simp
  have ih: "\<And>w'. extends_by ?Q w' (snd (doing_2 env callback endpoint params (Suc retry) w'))"
    using Suc(1)[OF n] .
  show ?case
  proof (cases "retrieve_2 (userAgent env (length (requests w))) endpoint params")
    case (Inl e)
    then show ?thesis by (simp add: doing_2_invalid extends_by_refl)
  next
    case (Inr call)
    have i: "extends_by ?Q w (issue call w)"
      using Inr by (intro extends_by_issue) blast
    show ?thesis
      using i extends_by_trans[OF i ih[of "logs ls (issue call w)" for ls, simplified]]
      by (auto simp add: doing_2_step[OF Inr] split: Settled.splits sum.splits)
  qed
qed

lemma issued_extends:
  "extends_by Q w (snd x) \<Longrightarrow> list_all Q (issued w x)"
  by (simp add: extends_by_def issued_def)

lemma getTranslationText_1_urls:
  assumes "encodeURIComponent query = Some encoded"
  shows "list_all
     (\<lambda>c. url c = js ''https://translate.google.com/m?sl='' @ mapGoogleCode reqMappings source
              @ js ''&tl='' @ mapGoogleCode reqMappings target @ js ''&q='' @ encoded)
     (issued w (getTranslationText_1 leZero env reqMappings resultContainer source target query w))"
proof (cases "7500 < length encoded")
  case True
  with assms show ?thesis
    by (simp add: getTranslationText_1_def getTranslationText_def issued_def)
next
  case False
  let ?params = "noParams\<lparr>p_source := Some (mapGoogleCode reqMappings source),
                       p_target := Some (mapGoogleCode reqMappings target),
                       p_query := Some encoded\<rparr>"
  let ?run = "doing_1 leZero env (textCallback resultContainer) TEXT ?params 0 w"
  have "list_all (\<lambda>c. \<exists>ua. retrieve_1 ua TEXT ?params = Inr c) (issued w ?run)"
    using doing_1_extends by (rule issued_extends)
  then have "list_all
     (\<lambda>c. url c = js ''https://translate.google.com/m?sl='' @ mapGoogleCode reqMappings source
              @ js ''&tl='' @ mapGoogleCode reqMappings target @ js ''&q='' @ encoded)
     (issued w ?run)"
    by (rule list.pred_mono_strong) (auto simp add: retrieve_1_TEXT tpl_def noParams_def)
  with assms False show ?thesis
    by (simp add: getTranslationText_1_def getTranslationText_def request_1_def issued_def
        snd_inHandler)
qed

lemma getTranslationText_2_urls:
  assumes "encodeURIComponent query = Some encoded"
    and "encodeURIComponent encoded = Some twice"
  shows "list_all
     (\<lambda>c. url c = js ''https://translate.google.com/m?sl='' @ mapGoogleCode reqMappings source
              @ js ''&tl='' @ mapGoogleCode reqMappings target @ js ''&q='' @ twice)
     (issued w (getTranslationText_2 env reqMappings resultContainer source target query w))"
proof (cases "7500 < length encoded")
  case True
  with assms show ?thesis
    by (simp add: getTranslationText_2_def getTranslationText_def issued_def)
next
  case False
  let ?params = "noParams\<lparr>p_source := Some (mapGoogleCode reqMappings source),
                       p_target := Some (mapGoogleCode reqMappings target),
                       p_query := Some encoded\<rparr>"
  let ?run = "doing_2 env (textCallback resultContainer) TEXT ?params 0 w"
  have "list_all (\<lambda>c. \<exists>ua. retrieve_2 ua TEXT ?params = Inr c) (issued w ?run)"
    using doing_2_extends by (rule issued_extends)
  then have "list_all
     (\<lambda>c. url c = js ''https://translate.google.com/m?sl='' @ mapGoogleCode reqMappings source
              @ js ''&tl='' @ mapGoogleCode reqMappings target @ js ''&q='' @ twice)
     (issued w ?run)"
    by (rule list.pred_mono_strong)
      (auto simp add: retrieve_2_def endpoints_distinct assms(2) tpl_def noParams_def)
  with assms False show ?thesis
    by (simp add: getTranslationText_2_def getTranslationText_def request_2_def issued_def
        snd_inHandler)
qed

text \<open>
  With the first listing the claim holds of every query (\<open>getTranslationText_1_urls\<close>): the
  URL of every HTTP call ends in the escaped form that was measured against the limit. With
  the second listing the URL ends in the escaped form of that escaped form
  (\<open>getTranslationText_2_urls\<close>): \<open>retrieve\<close> applies \<open>encodeURIComponent\<close> to the query it
  is given, which \<open>getTranslationText\<close> has escaped already.
\<close>

text \<open>
  C8. The query term placed in the URL of the text endpoint is the URL-escaped form of the
  original query, escaped exactly once, the same form whose length is checked against the
  limit. For the query \<open>a b\<close> that form is \<open>a%20b\<close>; with the second listing of the wrapper
  the URL carries \<open>a%2520b\<close>, with the first \<open>a%20b\<close>.
\<close>

theorem C8_second_listing_escapes_twice:
  "encodeURIComponent (js ''a b'') = Some (js ''a%20b'')
   \<and> map url (requests (snd (getTranslationText_2 (alwaysAnswers (Str (js ''<html>'')))
          Map.empty (\<lambda>v. js ''hola'') (js ''en'') (js ''es'') (js ''a b'') emptyWorld)))
     = [js ''https://translate.google.com/m?sl=en&tl=es&q=a%2520b'']
   \<and> map url (requests (snd (getTranslationText_1 leZero (alwaysAnswers (Str (js ''<html>'')))
          Map.empty (\<lambda>v. js ''hola'') (js ''en'') (js ''es'') (js ''a b'') emptyWorld)))
     = [js ''https://translate.google.com/m?sl=en&tl=es&q=a%20b'']"
  by (simp add: getTranslationText_2_def getTranslationText_1_def getTranslationText_def
      request_2_def request_1_def doing_2.simps doing_1.simps
      retrieve_2_def retrieve_1_def endpoints_distinct baseConfig_1_def baseConfig_2_def
      textCallback_def mapGoogleCode_def tpl_def noParams_def alwaysAnswers_def emptyWorld_def
      issue_def logs_def js_def encode_defs)

section \<open>C9: the frequency of an extra translation\<close>

text \<open>
  C9. For every extra-translation entry extracted from the payload, the emitted frequency
  is 4 minus the raw frequency rank of the entry: for a single entry, and position by
  position through every group of \<open>list.translations\<close>. Subtracting from 4 reverses the
  order, so a higher emitted value belongs to a lower raw rank.
\<close>

theorem C9_frequency_is_four_minus_rank:
  "getProp (translationEntry t) (js ''frequency'') = Number (4 - frequency t)
   \<and> map (\<lambda>group. map (\<lambda>entry. getProp entry (js ''frequency''))
                    (elems (getProp group (js ''list''))))
        (elems (list_translations d))
     = map (\<lambda>(type, transList).
              map (\<lambda>t. Number (4 - frequency t)) (case transList of None \<Rightarrow> [] | Some l \<Rightarrow> l))
         (case extra_5_0 d of None \<Rightarrow> [] | Some groups \<Rightarrow> groups)"
proof -
  have k: "js ''type'' \<noteq> js ''list''" "js ''list'' \<noteq> js ''type''"
    by (simp_all add: js_def)
  have e: "getProp (translationEntry t) (js ''frequency'') = Number (4 - frequency t)" for t
    by (simp add: translationEntry_def js_def)
  have g: "map (\<lambda>entry. getProp entry (js ''frequency''))
             (elems (getProp (Obj [(js ''type'', Str type),
                      (js ''list'',
                       (case transList of
                          None \<Rightarrow> Arr []
                        | Some l \<Rightarrow> Arr (map translationEntry l)))]) (js ''list'')))
         = map (\<lambda>t. Number (4 - frequency t)) (case transList of None \<Rightarrow> [] | Some l \<Rightarrow> l)"
    for type transList
    by (simp add: k e comp_def split: option.splits)
  show ?thesis
    by (simp add: e k list_translations_def comp_def case_prod_beta split: option.splits)
qed

section \<open>C10: \<open>undefinedFields\<close> removes every falsy value\<close>

text \<open>
  C10. \<open>undefinedFields\<close> removes every falsy value: an object field holding 0, false or
  the empty string (any falsy value) is dropped, and the falsy elements are filtered out of
  an array. So the frequency of an extra translation whose raw rank is 4, which is emitted
  as 0, does not survive the normalisation.
\<close>

theorem C10_falsy_values_are_removed:
  "(distinct (map fst kvs) \<longrightarrow> (k, v) \<in> set kvs \<longrightarrow> \<not> truthy v \<longrightarrow>
      k \<notin> fst ` set (Object_entries (undefinedFields (Obj kvs)))
      \<and> getProp (undefinedFields (Obj kvs)) k = Undefined)
   \<and> \<not> truthy (Number 0) \<and> \<not> truthy (Bool False) \<and> \<not> truthy (Str [])
   \<and> elems (undefinedFields (Arr xs))
       = map (\<lambda>item. if isObject item then undefinedFields item else item)
           (filter (\<lambda>item. truthy item) xs)
   \<and> list_all truthy (elems (undefinedFields (Arr xs)))
   \<and> (frequency t = 4 \<longrightarrow>
        getProp (translationEntry t) (js ''frequency'') = Number 0
        \<and> js ''frequency'' \<notin> fst ` set (Object_entries (undefinedFields (translationEntry t)))
        \<and> getProp (undefinedFields (translationEntry t)) (js ''frequency'') = Undefined)"
proof -
  have a: "k \<notin> fst ` set (Object_entries (undefinedFields (Obj kvs)))
      \<and> getProp (undefinedFields (Obj kvs)) k = Undefined"
    if "distinct (map fst kvs)" "(k, v) \<in> set kvs" "\<not> truthy v" for kvs k v
    using falsy_field_dropped[OF that] getProp_absent by blast
  have b: "list_all truthy (elems (undefinedFields (Arr xs)))"
    by (auto simp add: list_all_iff truthy_undefinedFields)
  have c: "getProp (translationEntry t) (js ''frequency'') = Number 0
        \<and> js ''frequency'' \<notin> fst ` set (Object_entries (undefinedFields (translationEntry t)))
        \<and> getProp (undefinedFields (translationEntry t)) (js ''frequency'') = Undefined"
    if f: "frequency t = 4"
  proof -
    let ?kvs = "[(js ''word'', Str (word t)),
          (js ''article'', (case article t of None \<Rightarrow> Undefined | Some a \<Rightarrow> Str a)),
          (js ''meanings'', Arr (map Str (meanings t))),
          (js ''frequency'', Number 0)]"
    have t: "translationEntry t = Obj ?kvs" by (simp add: translationEntry_def f)
    have d: "distinct (map fst ?kvs)" by (simp add: js_def)
    have m: "(js ''frequency'', Number 0) \<in> set ?kvs" by simp
    have "getProp (Obj ?kvs) (js ''frequency'') = Number 0" by (simp add: js_def)
    with a[OF d m] show ?thesis unfolding t by simp
  qed
  show ?thesis using a b c by simp
qed

theorem C10_falsy_values_are_removed_witness:
  "frequency leastFrequent = 4
   \<and> undefinedFields (translationEntry leastFrequent)
       = Obj [(js ''word'', Str (js ''ganar'')), (js ''meanings'', Arr [Str (js ''win'')])]
   \<and> getProp (undefinedFields (translationEntry leastFrequent)) (js ''frequency'') = Undefined
   \<and> getProp (undefinedFields
         (Obj [(js ''zero'', Number 0), (js ''no'', Bool False), (js ''blank'', Str []),
               (js ''one'', Number 1)])) (js ''zero'') = Undefined"
  using C10_falsy_values_are_removed[where t = leastFrequent and k = "js ''zero''"
      and v = "Number 0" and xs = "[]"
      and kvs = "[(js ''zero'', Number 0), (js ''no'', Bool False), (js ''blank'', Str []),
               (js ''one'', Number 1)]"]
  by (simp add: leastFrequent_def translationEntry_def Object_fromEntries_def js_def)

end
